theory Spec2Isabelle
  imports Complex_Main "HOL-Library.Multiset" "HOL-Library.Sublist" "HOL-Library.AList"
begin

section \<open>Strings\<close>

text \<open>
  Go strings are byte sequences; they are modelled as \<open>string\<close> (a list of 8-bit
  characters). \<open>strings.ToLower\<close> is modelled on the ASCII letters: every other byte is
  left as it is.
\<close>

definition toLowerChar :: "char \<Rightarrow> char" where
  "toLowerChar c =
     (case map_of (zip ''ABCDEFGHIJKLMNOPQRSTUVWXYZ'' ''abcdefghijklmnopqrstuvwxyz'') c of
        Some l \<Rightarrow> l
      | None \<Rightarrow> c)"

definition ToLower :: "string \<Rightarrow> string" where
  "ToLower s = map toLowerChar s"

text \<open>\<open>strings.Contains s substr\<close>: \<open>substr\<close> occurs in \<open>s\<close> as a contiguous block.\<close>

fun Contains :: "string \<Rightarrow> string \<Rightarrow> bool" where
  "Contains [] substr = (substr = [])"
| "Contains (c # s) substr = (prefix substr (c # s) \<or> Contains s substr)"

text \<open>\<open>strings.Split s sep\<close> for a separator of one byte; the result is never empty.\<close>

fun Split :: "string \<Rightarrow> char \<Rightarrow> string list" where
  "Split [] sep = [[]]"
| "Split (c # s) sep =
     (if c = sep then [] # Split s sep
      else (case Split s sep of
              [] \<Rightarrow> [[c]]
            | part # parts \<Rightarrow> (c # part) # parts))"

definition isSpace :: "char \<Rightarrow> bool" where
  "isSpace c = (c \<in> set [CHR 0x20, CHR 0x09, CHR 0x0A, CHR 0x0B, CHR 0x0C, CHR 0x0D])"

text \<open>\<open>strings.TrimSpace\<close>, on the ASCII white space.\<close>

definition TrimSpace :: "string \<Rightarrow> string" where
  "TrimSpace s = rev (dropWhile isSpace (rev (dropWhile isSpace s)))"

definition isDigit :: "char \<Rightarrow> bool" where
  "isDigit c = (c \<in> set ''0123456789'')"

definition quote :: string where
  "quote = [CHR 0x27]"

section \<open>Data model\<close>

text \<open>
  A Go \<open>map[string]V\<close> is an association list: lookups go through \<open>map_of\<close>, and the order
  of the list is the order in which one \<open>range\<close> loop enumerates the entries. A \<open>nil\<close> map
  reads like the empty one and is the empty list.
\<close>

datatype jvalue =
    JNull
  | JBool bool
  | JNumber real
  | JString string
  | JList "jvalue list"
  | JMap "(string \<times> jvalue) list"

text \<open>The type assertions \<open>m[key].(string)\<close>, \<open>m[key].(map[string]interface{})\<close> and
  \<open>m[key].([]interface{})\<close>; \<open>None\<close> is a failed assertion.\<close>

definition stringField :: "(string \<times> jvalue) list \<Rightarrow> string \<Rightarrow> string option" where
  "stringField m key = (case map_of m key of Some (JString s) \<Rightarrow> Some s | _ \<Rightarrow> None)"

definition mapField :: "(string \<times> jvalue) list \<Rightarrow> string \<Rightarrow> (string \<times> jvalue) list option" where
  "mapField m key = (case map_of m key of Some (JMap sub) \<Rightarrow> Some sub | _ \<Rightarrow> None)"

definition listField :: "(string \<times> jvalue) list \<Rightarrow> string \<Rightarrow> jvalue list option" where
  "listField m key = (case map_of m key of Some (JList vs) \<Rightarrow> Some vs | _ \<Rightarrow> None)"

record GroupVersionResource =
  gvrGroup :: string
  gvrVersion :: string
  gvrResource :: string

record GroupVersionKind =
  gvkGroup :: string
  gvkVersion :: string
  gvkKind :: string

text \<open>
  \<open>unstructured.Unstructured\<close> belongs to the Kubernetes client library. The accessors the
  handler calls on it are the fields of the record; \<open>Object\<close> is the document tree that
  holds \<open>spec\<close> and \<open>status\<close>.
\<close>

record Unstructured =
  GetKind :: string
  GetName :: string
  GetAPIVersion :: string
  GetLabels :: "(string \<times> string) list"
  GroupVersionKindOf :: GroupVersionKind
  Object :: "(string \<times> jvalue) list"

record ResourceIdentifier =
  Kind :: string
  Name :: string
  GVK :: GroupVersionKind

record ResourceMatch =
  Resource :: Unstructured
  ConfidenceScore :: real
  MatchReasons :: "string list"

text \<open>
  The dynamic client (\<open>dynamic.Interface\<close>) is the external resource store: listing a
  resource type, getting one object by name and updating one object either fail with an
  error of the store or return documents. One call of the handler sees one store.
\<close>

type_synonym apiError = string

record DynamicClient =
  clientList :: "GroupVersionResource \<Rightarrow> apiError + Unstructured list"
  clientGet :: "GroupVersionResource \<Rightarrow> string \<Rightarrow> apiError + Unstructured"
  clientUpdate :: "GroupVersionResource \<Rightarrow> Unstructured \<Rightarrow> apiError + Unstructured"

text \<open>Times are nanoseconds on one time line; a duration is a difference of two times.\<close>

record CrossplaneHandler =
  dynamicClient :: DynamicClient
  projectID :: string
  mockMode :: bool
  resourceIPMap :: "(string \<times> ResourceIdentifier list) list"
  lastNetworkMapBuild :: int

definition Minute :: int where
  "Minute = 60 * 1000000000"

datatype error = FailedToGet apiError | FailedToUpdate apiError

definition resourceType :: "string \<Rightarrow> string \<Rightarrow> string \<Rightarrow> GroupVersionResource" where
  "resourceType g v r = \<lparr>gvrGroup = g, gvrVersion = v, gvrResource = r\<rparr>"

definition GetCrossplaneResourceTypes :: "GroupVersionResource list" where
  "GetCrossplaneResourceTypes =
    [resourceType ''compute.gcp.upbound.io'' ''v1beta1'' ''instances'',
     resourceType ''compute.gcp.upbound.io'' ''v1beta1'' ''disks'',
     resourceType ''compute.gcp.upbound.io'' ''v1beta1'' ''firewalls'',
     resourceType ''compute.gcp.upbound.io'' ''v1beta1'' ''networks'',
     resourceType ''compute.gcp.upbound.io'' ''v1beta1'' ''subnetworks'',
     resourceType ''compute.gcp.upbound.io'' ''v1beta1'' ''routers'',
     resourceType ''compute.gcp.upbound.io'' ''v1beta1'' ''addresses'',
     resourceType ''storage.gcp.upbound.io'' ''v1beta1'' ''buckets'',
     resourceType ''storage.gcp.upbound.io'' ''v1beta1'' ''bucketiammembers'',
     resourceType ''storage.gcp.upbound.io'' ''v1beta1'' ''bucketobjects'',
     resourceType ''sql.gcp.upbound.io'' ''v1beta1'' ''databaseinstances'',
     resourceType ''sql.gcp.upbound.io'' ''v1beta2'' ''databaseinstances'',
     resourceType ''sql.gcp.upbound.io'' ''v1beta1'' ''databases'',
     resourceType ''sql.gcp.upbound.io'' ''v1beta1'' ''users'',
     resourceType ''sql.gcp.upbound.io'' ''v1beta1'' ''sslcerts'',
     resourceType ''redis.gcp.upbound.io'' ''v1beta1'' ''instances'',
     resourceType ''bigtable.gcp.upbound.io'' ''v1beta1'' ''instances'',
     resourceType ''bigtable.gcp.upbound.io'' ''v1beta1'' ''tables'',
     resourceType ''spanner.gcp.upbound.io'' ''v1beta1'' ''instances'',
     resourceType ''spanner.gcp.upbound.io'' ''v1beta1'' ''databases'',
     resourceType ''pubsub.gcp.upbound.io'' ''v1beta1'' ''topics'',
     resourceType ''pubsub.gcp.upbound.io'' ''v1beta1'' ''subscriptions'',
     resourceType ''pubsub.gcp.upbound.io'' ''v1beta1'' ''topiciammembers'',
     resourceType ''cloudfunctions.gcp.upbound.io'' ''v1beta1'' ''functions'',
     resourceType ''kms.gcp.upbound.io'' ''v1beta1'' ''cryptokeys'',
     resourceType ''kms.gcp.upbound.io'' ''v1beta1'' ''keyrings'',
     resourceType ''cloudscheduler.gcp.upbound.io'' ''v1beta1'' ''jobs'',
     resourceType ''iam.gcp.upbound.io'' ''v1beta1'' ''serviceaccounts'',
     resourceType ''iam.gcp.upbound.io'' ''v1beta1'' ''serviceaccountkeys'',
     resourceType ''cloudplatform.gcp.upbound.io'' ''v1beta1'' ''serviceaccounts'',
     resourceType ''cloudplatform.gcp.upbound.io'' ''v1beta1'' ''serviceaccountiammembers'',
     resourceType ''cloudplatform.gcp.upbound.io'' ''v1beta1'' ''projectiammembers'']"

section \<open>The confidence scorer\<close>

text \<open>
  \<open>evaluateResourceMatchForNamespace\<close> appends to \<open>matchReasons\<close> and to \<open>scores\<close> in lock
  step, one reason and one score for each check that fires. The two slices are one list of
  (reason, score) pairs here, in the order of the appends. A \<open>float64\<close> is a real number:
  the arithmetic of the scorer is exact in the model, with no rounding and no underflow, so
  a sum of squares is zero only when every score is zero.
\<close>

type_synonym signal = "string \<times> real"

definition nameSignals :: "Unstructured \<Rightarrow> string \<Rightarrow> signal list" where
  "nameSignals resource namespace =
     (if Contains (ToLower (GetName resource)) (ToLower namespace)
      then [(''Resource name contains namespace: '' @ namespace, 0.8)] else [])"

definition labelContainsSignal :: "string \<Rightarrow> string \<times> string \<Rightarrow> signal list" where
  "labelContainsSignal namespace kv =
     (case kv of (key, value) \<Rightarrow>
        if key \<noteq> ''kubernetes-namespace'' \<and> key \<noteq> ''namespace'' \<and> key \<noteq> ''environment'' \<and>
           Contains (ToLower value) (ToLower namespace)
        then [(''Resource has label '' @ quote @ key @ quote @ '' with value containing namespace'', 0.6)]
        else [])"

definition labelSignals :: "(string \<times> string) list \<Rightarrow> string \<Rightarrow> signal list" where
  "labelSignals labels namespace =
     (if map_of labels ''kubernetes-namespace'' = Some namespace
      then [(''Resource has '' @ quote @ ''kubernetes-namespace'' @ quote @ '' label matching the namespace'', 0.9)]
      else []) @
     (if map_of labels ''namespace'' = Some namespace
      then [(''Resource has '' @ quote @ ''namespace'' @ quote @ '' label matching the namespace'', 0.9)]
      else []) @
     (if map_of labels ''environment'' = Some namespace
      then [(''Resource has '' @ quote @ ''environment'' @ quote @ '' label matching the namespace'', 0.7)]
      else []) @
     concat (map (labelContainsSignal namespace) labels)"

definition forProviderLabelSignals :: "(string \<times> jvalue) list \<Rightarrow> string \<Rightarrow> signal list" where
  "forProviderLabelSignals labels namespace =
     (if stringField labels ''kubernetes-namespace'' = Some namespace
      then [(''Resource spec has '' @ quote @ ''kubernetes-namespace'' @ quote @ '' label in forProvider.labels'', 0.9)]
      else []) @
     (if stringField labels ''namespace'' = Some namespace
      then [(''Resource spec has '' @ quote @ ''namespace'' @ quote @ '' label in forProvider.labels'', 0.9)]
      else []) @
     (if stringField labels ''environment'' = Some namespace
      then [(''Resource spec has '' @ quote @ ''environment'' @ quote @ '' label in forProvider.labels'', 0.7)]
      else [])"

definition fieldContainsSignal :: "string \<Rightarrow> string \<times> jvalue \<Rightarrow> signal list" where
  "fieldContainsSignal namespace kv =
     (case kv of
        (key, JString strValue) \<Rightarrow>
          if Contains (ToLower strValue) (ToLower namespace)
          then [(''Resource spec.forProvider.'' @ key @ '' contains namespace'', 0.5)]
          else []
      | _ \<Rightarrow> [])"

definition forProviderSignals :: "(string \<times> jvalue) list \<Rightarrow> string \<Rightarrow> signal list" where
  "forProviderSignals forProvider namespace =
     (case mapField forProvider ''labels'' of
        Some labels \<Rightarrow> forProviderLabelSignals labels namespace
      | None \<Rightarrow> []) @
     concat (map (fieldContainsSignal namespace) forProvider)"

text \<open>\<open>resource.Object["spec"]["forProvider"]\<close>, when both are maps.\<close>

definition forProviderOf :: "Unstructured \<Rightarrow> (string \<times> jvalue) list option" where
  "forProviderOf resource =
     (case mapField (Object resource) ''spec'' of
        Some spec \<Rightarrow> mapField spec ''forProvider''
      | None \<Rightarrow> None)"

definition specSignals :: "Unstructured \<Rightarrow> string \<Rightarrow> signal list" where
  "specSignals resource namespace =
     (case forProviderOf resource of
        Some forProvider \<Rightarrow> forProviderSignals forProvider namespace
      | None \<Rightarrow> [])"

definition identitySignals :: "Unstructured \<Rightarrow> string \<Rightarrow> signal list" where
  "identitySignals resource namespace =
     nameSignals resource namespace @
     labelSignals (GetLabels resource) namespace @
     specSignals resource namespace"

text \<open>The loop over \<open>scores\<close> and the division that follows it; \<open>math.Pow(score, 2)\<close> is
  the square.\<close>

definition accumulate :: "real \<Rightarrow> real \<times> real \<Rightarrow> real \<times> real" where
  "accumulate score acc =
     (case acc of (weightedTotal, totalWeight) \<Rightarrow>
        let weight = score ^ 2 in (weightedTotal + score * weight, totalWeight + weight))"

definition totalScore :: "real list \<Rightarrow> real" where
  "totalScore scores =
     (case fold accumulate scores (0, 0) of (weightedTotal, totalWeight) \<Rightarrow>
        if totalWeight > 0 then weightedTotal / totalWeight
        else weightedTotal / real (length scores))"

definition evaluateResourceMatchForNamespace :: "Unstructured \<Rightarrow> string \<Rightarrow> string list \<times> real" where
  "evaluateResourceMatchForNamespace resource namespace =
     (let signals = identitySignals resource namespace;
          matchReasons = map fst signals;
          scores = map snd signals
      in if length scores = 0 then ([], 0) else (matchReasons, totalScore scores))"

text \<open>The boolean matcher for workloads, \<open>isResourceForWorkload\<close>.\<close>

definition isResourceForWorkload :: "Unstructured \<Rightarrow> string \<Rightarrow> bool" where
  "isResourceForWorkload resource workloadName =
     (if map_of (GetLabels resource) ''workload-name'' = Some workloadName then True
      else if map_of (GetLabels resource) ''app'' = Some workloadName then True
      else if Contains (ToLower (GetName resource)) (ToLower workloadName) then True
      else (case forProviderOf resource of
              Some forProvider \<Rightarrow>
                (case mapField forProvider ''labels'' of
                   Some labels \<Rightarrow>
                     if stringField labels ''workload-name'' = Some workloadName then True
                     else if stringField labels ''app'' = Some workloadName then True
                     else False
                 | None \<Rightarrow> False)
            | None \<Rightarrow> False))"

section \<open>Sorting and the metadata pass\<close>

text \<open>
  \<open>sortMatchesByConfidence\<close> sorts the slice in place with two nested index loops: for
  every \<open>i\<close> and every later \<open>j\<close>, the entries at \<open>i\<close> and \<open>j\<close> are exchanged when the
  one at \<open>i\<close> has the smaller score. Both indices stay below the length.
\<close>

definition swap :: "'a list \<Rightarrow> nat \<Rightarrow> nat \<Rightarrow> 'a list" where
  "swap xs i j = xs[i := xs ! j, j := xs ! i]"

definition compareSwap :: "nat \<Rightarrow> nat \<Rightarrow> ResourceMatch list \<Rightarrow> ResourceMatch list" where
  "compareSwap i j matches =
     (if ConfidenceScore (matches ! i) < ConfidenceScore (matches ! j)
      then swap matches i j else matches)"

definition innerLoop :: "nat \<Rightarrow> ResourceMatch list \<Rightarrow> ResourceMatch list" where
  "innerLoop i matches = fold (compareSwap i) [i + 1 ..< length matches] matches"

definition sortMatchesByConfidence :: "ResourceMatch list \<Rightarrow> ResourceMatch list" where
  "sortMatchesByConfidence matches = fold innerLoop [0 ..< length matches] matches"

text \<open>The key \<open>fmt.Sprintf("%s/%s", kind, name)\<close>.\<close>

definition resourceKey :: "string \<Rightarrow> string \<Rightarrow> string" where
  "resourceKey kind name = kind @ ''/'' @ name"

definition matchKey :: "ResourceMatch \<Rightarrow> string" where
  "matchKey m = resourceKey (GetKind (Resource m)) (GetName (Resource m))"

text \<open>
  The first pass of \<open>FindCrossplaneResourcesForNamespaceWithConfidence\<close>. The state of the
  loops is the slice \<open>matches\<close> and the set \<open>foundResources\<close> (a \<open>map[string]bool\<close> that
  only ever stores \<open>true\<close>). A resource type that cannot be listed is skipped.
\<close>

definition scanItem ::
  "string \<Rightarrow> Unstructured \<Rightarrow> ResourceMatch list \<times> string set \<Rightarrow> ResourceMatch list \<times> string set" where
  "scanItem namespace item st =
     (case st of (matches, foundResources) \<Rightarrow>
        if resourceKey (GetKind item) (GetName item) \<in> foundResources then st
        else (case evaluateResourceMatchForNamespace item namespace of
                (matchReasons, confidence) \<Rightarrow>
                  if confidence > 0.3
                  then (matches @ [\<lparr>Resource = item, ConfidenceScore = confidence,
                                     MatchReasons = matchReasons\<rparr>],
                        insert (resourceKey (GetKind item) (GetName item)) foundResources)
                  else st))"

definition scanType ::
  "DynamicClient \<Rightarrow> string \<Rightarrow> GroupVersionResource \<Rightarrow>
   ResourceMatch list \<times> string set \<Rightarrow> ResourceMatch list \<times> string set" where
  "scanType client namespace gvr st =
     (case clientList client gvr of
        Inl err \<Rightarrow> st
      | Inr items \<Rightarrow> fold (scanItem namespace) items st)"

definition metadataPass :: "DynamicClient \<Rightarrow> string \<Rightarrow> ResourceMatch list" where
  "metadataPass client namespace =
     fst (fold (scanType client namespace) GetCrossplaneResourceTypes ([], {}))"

section \<open>The network index\<close>

definition looksLikeIP :: "string \<Rightarrow> bool" where
  "looksLikeIP s =
     (if count_list s CHR ''.'' \<noteq> 3 then False
      else let parts = Split s CHR ''.'' in
        if length parts \<noteq> 4 then False
        else list_all (\<lambda>part. \<not> (length part = 0 \<or> length part > 3) \<and> list_all isDigit part) parts)"

text \<open>The delimiters are the colon, the slash, the at sign and the comma.\<close>

definition extractIPsFromConnectionString :: "string \<Rightarrow> string list" where
  "extractIPsFromConnectionString connStr =
     concat (map (\<lambda>delimiter. filter looksLikeIP (map TrimSpace (Split connStr delimiter)))
                 [CHR 0x3A, CHR 0x2F, CHR 0x40, CHR 0x2C])"

text \<open>The non-empty string fields of a map, in the order of the field names given.\<close>

definition nonEmptyStrings :: "(string \<times> jvalue) list \<Rightarrow> string list \<Rightarrow> string list" where
  "nonEmptyStrings m fieldNames =
     concat (map (\<lambda>field. case stringField m field of
                             Some ipStr \<Rightarrow> if ipStr \<noteq> [] then [ipStr] else []
                           | None \<Rightarrow> []) fieldNames)"

definition accessConfigIPs :: "jvalue \<Rightarrow> string list" where
  "accessConfigIPs ac = (case ac of JMap acMap \<Rightarrow> nonEmptyStrings acMap [''natIP''] | _ \<Rightarrow> [])"

definition networkInterfaceIPs :: "jvalue \<Rightarrow> string list" where
  "networkInterfaceIPs ni =
     (case ni of
        JMap niMap \<Rightarrow>
          nonEmptyStrings niMap [''networkIP'', ''ipAddress''] @
          (case listField niMap ''accessConfigs'' of
             Some accessConfigs \<Rightarrow> concat (map accessConfigIPs accessConfigs)
           | None \<Rightarrow> [])
      | _ \<Rightarrow> [])"

definition computeInstanceIPs :: "(string \<times> jvalue) list \<Rightarrow> string list" where
  "computeInstanceIPs forProvider =
     nonEmptyStrings forProvider [''ipAddress'', ''privateIpAddress'', ''publicIpAddress''] @
     (case listField forProvider ''networkInterfaces'' of
        Some networkInterfaces \<Rightarrow> concat (map networkInterfaceIPs networkInterfaces)
      | None \<Rightarrow> [])"

text \<open>The closure \<open>checkIPFields\<close>: the string fields that look like an address, and those
  one level deeper.\<close>

definition checkIPFields :: "(string \<times> jvalue) list \<Rightarrow> string list" where
  "checkIPFields obj =
     concat (map (\<lambda>(key, val).
        case val of
          JString ipStr \<Rightarrow> if looksLikeIP ipStr then [ipStr] else []
        | JMap subObj \<Rightarrow>
            concat (map (\<lambda>(subKey, subVal).
              case subVal of
                JString ipStr \<Rightarrow> if looksLikeIP ipStr then [ipStr] else []
              | _ \<Rightarrow> []) subObj)
        | _ \<Rightarrow> []) obj)"

definition connectionStringIPs :: "(string \<times> jvalue) list \<Rightarrow> string list \<Rightarrow> string list" where
  "connectionStringIPs m fieldNames =
     concat (map (\<lambda>field. case stringField m field of
                             Some connStr \<Rightarrow>
                               if connStr \<noteq> [] then extractIPsFromConnectionString connStr else []
                           | None \<Rightarrow> []) fieldNames)"

text \<open>The block on \<open>settings.ipConfiguration.privateNetwork\<close> only logs and is left out.\<close>

definition databaseInstanceIPs :: "(string \<times> jvalue) list \<Rightarrow> string list" where
  "databaseInstanceIPs forProvider =
     checkIPFields forProvider @
     connectionStringIPs forProvider
       [''connectionName'', ''host'', ''endpoint'', ''uri'', ''connectionString'']"

definition redisInstanceIPs :: "(string \<times> jvalue) list \<Rightarrow> string list" where
  "redisInstanceIPs forProvider =
     nonEmptyStrings forProvider [''host''] @ connectionStringIPs forProvider [''authString'']"

definition looksLikeIPStrings :: "(string \<times> jvalue) list \<Rightarrow> string list \<Rightarrow> string list" where
  "looksLikeIPStrings m fieldNames =
     concat (map (\<lambda>field. case stringField m field of
                             Some ipStr \<Rightarrow> if ipStr \<noteq> [] \<and> looksLikeIP ipStr then [ipStr] else []
                           | None \<Rightarrow> []) fieldNames)"

definition addressEntryIPs :: "jvalue \<Rightarrow> string list" where
  "addressEntryIPs addr =
     (case addr of
        JMap addrMap \<Rightarrow> looksLikeIPStrings addrMap [''ip'', ''ipAddress'', ''address'']
      | JString ipStr \<Rightarrow> if looksLikeIP ipStr then [ipStr] else []
      | _ \<Rightarrow> [])"

definition statusIPs :: "Unstructured \<Rightarrow> string list" where
  "statusIPs resource =
     (case mapField (Object resource) ''status'' of
        Some status \<Rightarrow>
          (case mapField status ''atProvider'' of
             Some atProvider \<Rightarrow>
               looksLikeIPStrings atProvider
                 [''ipAddress'', ''ip'', ''address'', ''host'', ''endpoint''] @
               (case listField atProvider ''addresses'' of
                  Some addresses \<Rightarrow> concat (map addressEntryIPs addresses)
                | None \<Rightarrow> [])
           | None \<Rightarrow> [])
      | None \<Rightarrow> [])"

definition extractIPAddresses :: "Unstructured \<Rightarrow> string list" where
  "extractIPAddresses resource =
     (let kind = GetKind resource; forProvider = forProviderOf resource in
      if kind = ''Instance'' \<and> Contains (GetAPIVersion resource) ''compute.gcp.upbound.io''
      then (case forProvider of Some fp \<Rightarrow> computeInstanceIPs fp | None \<Rightarrow> [])
      else if kind = ''DatabaseInstance'' \<and> Contains (GetAPIVersion resource) ''sql.gcp.upbound.io''
      then (case forProvider of Some fp \<Rightarrow> databaseInstanceIPs fp | None \<Rightarrow> [])
      else if kind = ''Instance'' \<and> Contains (GetAPIVersion resource) ''redis.gcp.upbound.io''
      then (case forProvider of Some fp \<Rightarrow> redisInstanceIPs fp | None \<Rightarrow> [])
      else if kind = ''Instance'' \<and> Contains (GetAPIVersion resource) ''spanner.gcp.upbound.io''
      then []
      else statusIPs resource)"

text \<open>\<open>resourceMap[ip] = append(resourceMap[ip], identifier)\<close>.\<close>

definition appendIdentifier ::
  "ResourceIdentifier \<Rightarrow> string \<Rightarrow> (string \<times> ResourceIdentifier list) list \<Rightarrow>
   (string \<times> ResourceIdentifier list) list" where
  "appendIdentifier identifier ip resourceMap =
     AList.update ip
       ((case map_of resourceMap ip of Some ids \<Rightarrow> ids | None \<Rightarrow> []) @ [identifier])
       resourceMap"

definition indexItem ::
  "Unstructured \<Rightarrow> (string \<times> ResourceIdentifier list) list \<Rightarrow>
   (string \<times> ResourceIdentifier list) list" where
  "indexItem item resourceMap =
     (let ipAddresses = extractIPAddresses item in
      if length ipAddresses > 0
      then fold (appendIdentifier
                  \<lparr>Kind = GetKind item, Name = GetName item, GVK = GroupVersionKindOf item\<rparr>)
                ipAddresses resourceMap
      else resourceMap)"

definition indexType ::
  "DynamicClient \<Rightarrow> GroupVersionResource \<Rightarrow> (string \<times> ResourceIdentifier list) list \<Rightarrow>
   (string \<times> ResourceIdentifier list) list" where
  "indexType client gvr resourceMap =
     (case clientList client gvr of
        Inl err \<Rightarrow> resourceMap
      | Inr items \<Rightarrow> fold indexItem items resourceMap)"

text \<open>
  \<open>BuildNetworkMap\<close> replaces the index of the handler and stamps it with the time read
  when the build ends, \<open>now\<close>. Its error result is \<open>nil\<close> on every path.
\<close>

definition BuildNetworkMap :: "CrossplaneHandler \<Rightarrow> int \<Rightarrow> CrossplaneHandler" where
  "BuildNetworkMap h now =
     (if mockMode h then h
      else h\<lparr>resourceIPMap := fold (indexType (dynamicClient h)) GetCrossplaneResourceTypes [],
             lastNetworkMapBuild := now\<rparr>)"

section \<open>The match resolver\<close>

text \<open>
  The handler reads the clock when it tests the age of the index (\<open>time.Since\<close>) and when a
  rebuild ends (\<open>time.Now\<close>). The two readings are arguments, a pair \<open>(checked, built)\<close>.
  The error result of \<open>FindCrossplaneResourcesForNamespaceWithConfidence\<close> is \<open>nil\<close> on every
  path, so the model returns the matches and the handler as the call leaves it.
\<close>

definition FindCrossplaneResourcesForNamespaceWithConfidence ::
  "CrossplaneHandler \<Rightarrow> int \<times> int \<Rightarrow> string \<Rightarrow> ResourceMatch list \<times> CrossplaneHandler" where
  "FindCrossplaneResourcesForNamespaceWithConfidence h clock namespace =
     (if mockMode h then ([], h)
      else
        let h' = (if fst clock - lastNetworkMapBuild h > 30 * Minute
                  then BuildNetworkMap h (snd clock) else h)
        in (sortMatchesByConfidence (metadataPass (dynamicClient h') namespace), h'))"

definition identifierGVR :: "ResourceIdentifier \<Rightarrow> GroupVersionResource" where
  "identifierGVR connectedResource =
     \<lparr>gvrGroup = gvkGroup (GVK connectedResource),
      gvrVersion = gvkVersion (GVK connectedResource),
      gvrResource = ToLower (Kind connectedResource) @ ''s''\<rparr>"

definition connectResource ::
  "DynamicClient \<Rightarrow> string \<Rightarrow> ResourceIdentifier \<Rightarrow>
   ResourceMatch list \<times> string set \<Rightarrow> ResourceMatch list \<times> string set" where
  "connectResource client podIP connectedResource st =
     (case st of (matches, foundResources) \<Rightarrow>
        if resourceKey (Kind connectedResource) (Name connectedResource) \<in> foundResources then st
        else (case clientGet client (identifierGVR connectedResource) (Name connectedResource) of
                Inl err \<Rightarrow> st
              | Inr resource \<Rightarrow>
                  (matches @ [\<lparr>Resource = resource, ConfidenceScore = 0.9,
                               MatchReasons = [''Network connection detected from pod IP '' @ podIP]\<rparr>],
                   insert (resourceKey (Kind connectedResource) (Name connectedResource))
                     foundResources)))"

definition checkPodIP ::
  "DynamicClient \<Rightarrow> (string \<times> ResourceIdentifier list) list \<Rightarrow> string \<Rightarrow>
   ResourceMatch list \<times> string set \<Rightarrow> ResourceMatch list \<times> string set" where
  "checkPodIP client ipMap podIP st =
     (case map_of ipMap podIP of
        None \<Rightarrow> st
      | Some connectedResources \<Rightarrow> fold (connectResource client podIP) connectedResources st)"

definition FindCrossplaneResourcesForNamespaceWithNetworking ::
  "CrossplaneHandler \<Rightarrow> int \<times> int \<Rightarrow> int \<times> int \<Rightarrow> string \<Rightarrow> string list \<Rightarrow>
   ResourceMatch list \<times> CrossplaneHandler" where
  "FindCrossplaneResourcesForNamespaceWithNetworking h clock1 clock2 namespace podIPs =
     (case FindCrossplaneResourcesForNamespaceWithConfidence h clock1 namespace of
        (matches, h1) \<Rightarrow>
          if length podIPs = 0 \<or> mockMode h1 then (matches, h1)
          else
            let h2 = (if length (resourceIPMap h1) = 0 \<or>
                         fst clock2 - lastNetworkMapBuild h1 > 30 * Minute
                      then BuildNetworkMap h1 (snd clock2) else h1);
                foundResources = fold (\<lambda>m found. insert (matchKey m) found) matches {}
            in (sortMatchesByConfidence
                  (fst (fold (checkPodIP (dynamicClient h2) (resourceIPMap h2)) podIPs
                          (matches, foundResources))),
                h2))"

section \<open>The label applier\<close>

text \<open>
  \<open>ApplyLabelsToResource\<close> returns its error (\<open>None\<close> is \<open>nil\<close>) and the list of the
  \<open>Update\<close> calls it has sent to the store, each with the resource type and the object.
\<close>

definition applyLabel ::
  "string \<times> string \<Rightarrow> (string \<times> string) list \<times> bool \<Rightarrow> (string \<times> string) list \<times> bool" where
  "applyLabel kv st =
     (case (kv, st) of ((k, v), (currentLabels, labelsChanged)) \<Rightarrow>
        if map_of currentLabels k \<noteq> Some v then (AList.update k v currentLabels, True)
        else (currentLabels, labelsChanged))"

text \<open>The resource type \<open>ApplyLabelsToResource\<close> derives from the resource it is given.\<close>

definition resourceGVR :: "Unstructured \<Rightarrow> GroupVersionResource" where
  "resourceGVR resource =
     \<lparr>gvrGroup = gvkGroup (GroupVersionKindOf resource),
      gvrVersion = gvkVersion (GroupVersionKindOf resource),
      gvrResource = ToLower (GetKind resource) @ ''s''\<rparr>"

definition ApplyLabelsToResource ::
  "CrossplaneHandler \<Rightarrow> Unstructured \<Rightarrow> (string \<times> string) list \<Rightarrow>
   error option \<times> (GroupVersionResource \<times> Unstructured) list" where
  "ApplyLabelsToResource h resource labels =
     (if mockMode h then (None, [])
      else
        let gvr = resourceGVR resource
        in (case clientGet (dynamicClient h) gvr (GetName resource) of
              Inl err \<Rightarrow> (Some (FailedToGet err), [])
            | Inr current \<Rightarrow>
                (case fold applyLabel labels (GetLabels current, False) of
                   (currentLabels, labelsChanged) \<Rightarrow>
                     if \<not> labelsChanged then (None, [])
                     else
                       (let updated = current\<lparr>GetLabels := currentLabels\<rparr>
                        in (case clientUpdate (dynamicClient h) gvr updated of
                              Inl err \<Rightarrow> (Some (FailedToUpdate err), [(gvr, updated)])
                            | Inr res \<Rightarrow> (None, [(gvr, updated)]))))))"

section \<open>Example resources\<close>

definition emptyGVK :: GroupVersionKind where
  "emptyGVK = \<lparr>gvkGroup = [], gvkVersion = [], gvkKind = []\<rparr>"

definition plainResource :: "string \<Rightarrow> string \<Rightarrow> (string \<times> string) list \<Rightarrow> Unstructured" where
  "plainResource kind name labels =
     \<lparr>GetKind = kind, GetName = name, GetAPIVersion = [], GetLabels = labels,
      GroupVersionKindOf = emptyGVK, Object = []\<rparr>"

definition billingDb :: Unstructured where
  "billingDb = plainResource ''DatabaseInstance'' ''billing-prod-db-1''
                 [(''kubernetes-namespace'', ''billing-prod'')]"

definition teamCache :: Unstructured where
  "teamCache = plainResource ''Instance'' ''cache'' [(''team'', ''core'')]"

text \<open>The reason the scorer gives for an exact match of the top-level
  \<open>kubernetes-namespace\<close> label.\<close>

definition kubernetesNamespaceReason :: string where
  "kubernetesNamespaceReason =
     ''Resource has '' @ quote @ ''kubernetes-namespace'' @ quote @ '' label matching the namespace''"

definition prodDb :: Unstructured where
  "prodDb = plainResource ''DatabaseInstance'' ''db''
              [(''kubernetes-namespace'', ''prod''), (''tier'', ''gold'')]"

definition appCache :: Unstructured where
  "appCache =
     \<lparr>GetKind = ''Instance'', GetName = ''cache'', GetAPIVersion = ''redis.gcp.upbound.io/v1beta1'',
      GetLabels = [],
      GroupVersionKindOf = \<lparr>gvkGroup = ''redis.gcp.upbound.io'', gvkVersion = ''v1beta1'',
                              gvkKind = ''Instance''\<rparr>,
      Object = [(''spec'', JMap [(''forProvider'',
                   JMap [(''labels'', JMap [(''app'', JString ''checkout'')])])])]\<rparr>"

definition appWorker :: Unstructured where
  "appWorker = plainResource ''Instance'' ''worker'' [(''app'', ''checkout'')]"

definition nestedNamespace :: Unstructured where
  "nestedNamespace =
     \<lparr>GetKind = ''Bucket'', GetName = ''assets'', GetAPIVersion = ''storage.gcp.upbound.io/v1beta1'',
      GetLabels = [],
      GroupVersionKindOf = \<lparr>gvkGroup = ''storage.gcp.upbound.io'', gvkVersion = ''v1beta1'',
                              gvkKind = ''Bucket''\<rparr>,
      Object = [(''spec'', JMap [(''forProvider'',
                   JMap [(''labels'', JMap [(''namespace'', JString ''checkout'')])])])]\<rparr>"

text \<open>Two enumerations of one Go map: the same entries, each key once, in any order.\<close>

definition sameEntries :: "(string \<times> 'v) list \<Rightarrow> (string \<times> 'v) list \<Rightarrow> bool" where
  "sameEntries m1 m2 = (mset m1 = mset m2 \<and> distinct (map fst m1))"

definition ledger :: "(string \<times> string) list \<Rightarrow> (string \<times> jvalue) list \<Rightarrow> Unstructured" where
  "ledger labels forProvider =
     \<lparr>GetKind = ''Bucket'', GetName = ''ledger'', GetAPIVersion = ''storage.gcp.upbound.io/v1beta1'',
      GetLabels = labels,
      GroupVersionKindOf = \<lparr>gvkGroup = ''storage.gcp.upbound.io'', gvkVersion = ''v1beta1'',
                              gvkKind = ''Bucket''\<rparr>,
      Object = [(''spec'', JMap [(''forProvider'', JMap forProvider)])]\<rparr>"

definition ledgerOne :: Unstructured where
  "ledgerOne = ledger [(''team'', ''pay-core''), (''tier'', ''pay'')]
                      [(''location'', JString ''pay-eu''), (''project'', JString ''pay'')]"

definition ledgerTwo :: Unstructured where
  "ledgerTwo = ledger [(''tier'', ''pay''), (''team'', ''pay-core'')]
                      [(''project'', JString ''pay''), (''location'', JString ''pay-eu'')]"

text \<open>The items the first pass sees, in the order of discovery: the lists of the resource
  types that can be listed, one after the other.\<close>

definition listedItems :: "DynamicClient \<Rightarrow> Unstructured list" where
  "listedItems client =
     concat (map (\<lambda>gvr. case clientList client gvr of Inl err \<Rightarrow> [] | Inr items \<Rightarrow> items)
                 GetCrossplaneResourceTypes)"

definition itemKey :: "Unstructured \<Rightarrow> string" where
  "itemKey item = resourceKey (GetKind item) (GetName item)"

text \<open>What the scan keeps true of its state, over the items scanned so far.\<close>

definition scanState :: "string \<Rightarrow> Unstructured list \<Rightarrow> ResourceMatch list \<times> string set \<Rightarrow> bool" where
  "scanState ns items st =
     (case st of (matches, found) \<Rightarrow>
        found = set (map matchKey matches) \<and>
        distinct (map matchKey matches) \<and>
        (\<forall>m\<in>set matches.
           ConfidenceScore m > 0.3 \<and> Resource m \<in> set items \<and>
           evaluateResourceMatchForNamespace (Resource m) ns = (MatchReasons m, ConfidenceScore m)) \<and>
        (\<forall>item\<in>set items.
           snd (evaluateResourceMatchForNamespace item ns) > 0.3 \<longrightarrow> itemKey item \<in> found))"

text \<open>A store that lists compute instances only, and a handler on it whose index was built
  at time 0.\<close>

definition computeInstances :: GroupVersionResource where
  "computeInstances = resourceType ''compute.gcp.upbound.io'' ''v1beta1'' ''instances''"

definition instancesClient ::
  "Unstructured list \<Rightarrow> (GroupVersionResource \<Rightarrow> string \<Rightarrow> apiError + Unstructured) \<Rightarrow> DynamicClient" where
  "instancesClient items get =
     \<lparr>clientList = (\<lambda>gvr. if gvr = computeInstances then Inr items else Inl ''not found''),
      clientGet = get,
      clientUpdate = (\<lambda>gvr obj. Inr obj)\<rparr>"

definition handlerOf ::
  "DynamicClient \<Rightarrow> (string \<times> ResourceIdentifier list) list \<Rightarrow> CrossplaneHandler" where
  "handlerOf client ipMap =
     \<lparr>dynamicClient = client, projectID = ''demo'', mockMode = False,
      resourceIPMap = ipMap, lastNetworkMapBuild = 0\<rparr>"

definition payApi :: Unstructured where
  "payApi = plainResource ''Instance'' ''pay-api'' []"

definition payWorker :: Unstructured where
  "payWorker = plainResource ''Instance'' ''pay-worker'' []"

definition payLedger :: Unstructured where
  "payLedger = plainResource ''Instance'' ''ledger'' [(''kubernetes-namespace'', ''pay'')]"

definition payClient :: DynamicClient where
  "payClient = instancesClient [payApi, payWorker, payLedger] (\<lambda>gvr name. Inl ''not found'')"

text \<open>
  The store returns the object it is asked for: a successful \<open>Get\<close> for an identifier
  gives a resource of that kind and name. \<open>fetchFaithful\<close> says so for every identifier of
  an index.
\<close>

definition fetchesIdentified :: "DynamicClient \<Rightarrow> ResourceIdentifier \<Rightarrow> bool" where
  "fetchesIdentified client connectedResource =
     (case clientGet client (identifierGVR connectedResource) (Name connectedResource) of
        Inl err \<Rightarrow> True
      | Inr resource \<Rightarrow>
          GetKind resource = Kind connectedResource \<and> GetName resource = Name connectedResource)"

definition fetchFaithful ::
  "DynamicClient \<Rightarrow> (string \<times> ResourceIdentifier list) list \<Rightarrow> bool" where
  "fetchFaithful client ipMap =
     list_all (\<lambda>entry. list_all (fetchesIdentified client) (snd entry)) ipMap"

text \<open>
  A match that comes from the network phase: the confidence is 0.9, the only reason cites
  one of the observed addresses, and the resource was fetched for an identifier that the
  index holds under that address and whose key is not among the keys of the metadata
  matches.
\<close>

definition networkSourced ::
  "DynamicClient \<Rightarrow> (string \<times> ResourceIdentifier list) list \<Rightarrow> string list \<Rightarrow> string set \<Rightarrow>
   ResourceMatch \<Rightarrow> bool" where
  "networkSourced client ipMap podIPs metadataKeys m =
     (ConfidenceScore m = 0.9 \<and>
      list_ex (\<lambda>podIP.
          MatchReasons m = [''Network connection detected from pod IP '' @ podIP] \<and>
          (case map_of ipMap podIP of
             None \<Rightarrow> False
           | Some connectedResources \<Rightarrow>
               list_ex (\<lambda>connectedResource.
                   resourceKey (Kind connectedResource) (Name connectedResource) \<notin> metadataKeys \<and>
                   clientGet client (identifierGVR connectedResource) (Name connectedResource) =
                     Inr (Resource m))
                 connectedResources))
        podIPs)"

text \<open>What the network phase keeps true of its state.\<close>

definition netState :: "ResourceMatch list \<times> string set \<Rightarrow> bool" where
  "netState st =
     (case st of (matches, found) \<Rightarrow>
        matchKey ` set matches \<subseteq> found \<and> distinct (map matchKey matches))"

text \<open>The handler as the network phase uses it, after the index has been made fresh.\<close>

definition refreshed :: "CrossplaneHandler \<Rightarrow> int \<times> int \<Rightarrow> CrossplaneHandler" where
  "refreshed h1 clock2 =
     (if length (resourceIPMap h1) = 0 \<or> fst clock2 - lastNetworkMapBuild h1 > 30 * Minute
      then BuildNetworkMap h1 (snd clock2) else h1)"

text \<open>A store with an instance that holds the address 10.0.3.4, and a handler on it with
  an empty index.\<close>

definition web1 :: Unstructured where
  "web1 =
     \<lparr>GetKind = ''Instance'', GetName = ''web-1'',
      GetAPIVersion = ''compute.gcp.upbound.io/v1beta1'', GetLabels = [],
      GroupVersionKindOf = \<lparr>gvkGroup = ''compute.gcp.upbound.io'', gvkVersion = ''v1beta1'',
                              gvkKind = ''Instance''\<rparr>,
      Object = [(''spec'', JMap [(''forProvider'',
                   JMap [(''networkInterfaces'',
                          JList [JMap [(''networkIP'', JString ''10.0.3.4'')]])])])]\<rparr>"

definition web1Identifier :: ResourceIdentifier where
  "web1Identifier =
     \<lparr>Kind = ''Instance'', Name = ''web-1'',
      GVK = \<lparr>gvkGroup = ''compute.gcp.upbound.io'', gvkVersion = ''v1beta1'',
              gvkKind = ''Instance''\<rparr>\<rparr>"

definition netClient :: DynamicClient where
  "netClient = instancesClient [payLedger, web1]
     (\<lambda>gvr name. if gvr = computeInstances \<and> name = ''web-1'' then Inr web1 else Inl ''not found'')"

definition netHandler :: CrossplaneHandler where
  "netHandler = handlerOf netClient []"

definition ledgerMatch :: ResourceMatch where
  "ledgerMatch = \<lparr>Resource = payLedger, ConfidenceScore = 0.9,
                   MatchReasons = [kubernetesNamespaceReason]\<rparr>"

definition web1Match :: ResourceMatch where
  "web1Match = \<lparr>Resource = web1, ConfidenceScore = 0.9,
                 MatchReasons = [''Network connection detected from pod IP 10.0.3.4'']\<rparr>"

text \<open>
  The items the first pass iterates over: none in mock mode, where the handler returns
  before it lists anything, and the listed items otherwise.
\<close>

definition scanned :: "CrossplaneHandler \<Rightarrow> Unstructured list" where
  "scanned h = (if mockMode h then [] else listedItems (dynamicClient h))"

text \<open>The match the first pass builds for an item it keeps.\<close>

definition matchOf :: "string \<Rightarrow> Unstructured \<Rightarrow> ResourceMatch" where
  "matchOf ns item =
     \<lparr>Resource = item,
      ConfidenceScore = snd (evaluateResourceMatchForNamespace item ns),
      MatchReasons = fst (evaluateResourceMatchForNamespace item ns)\<rparr>"

text \<open>
  The item at position \<open>i\<close> is scored when the pass reaches the scorer for it: its key
  is not in \<open>foundResources\<close>, that is, no earlier item with the same key scored above
  0.3. It is kept when it is scored and its own score is above 0.3.
\<close>

definition scoredAt :: "string \<Rightarrow> Unstructured list \<Rightarrow> nat \<Rightarrow> bool" where
  "scoredAt ns items i =
     (\<forall>j<i. itemKey (items ! j) = itemKey (items ! i) \<longrightarrow>
              \<not> snd (evaluateResourceMatchForNamespace (items ! j) ns) > 0.3)"

definition keptAt :: "string \<Rightarrow> Unstructured list \<Rightarrow> nat \<Rightarrow> bool" where
  "keptAt ns items i =
     (scoredAt ns items i \<and> snd (evaluateResourceMatchForNamespace (items ! i) ns) > 0.3)"

text \<open>A store that lists one instance twice.\<close>

definition repeatedClient :: DynamicClient where
  "repeatedClient = instancesClient [payApi, payApi, web1, payLedger]
                      (\<lambda>gvr name. Inl ''not found'')"

text \<open>No key of the desired labels would change its value in the current labels.\<close>

definition labelsUpToDate :: "(string \<times> string) list \<Rightarrow> (string \<times> string) list \<Rightarrow> bool" where
  "labelsUpToDate currentLabels labels =
     list_all (\<lambda>kv. map_of currentLabels (fst kv) = Some (snd kv)) labels"

text \<open>A store whose copy of \<open>web-1\<close> carries two labels, and a handler on it.\<close>

definition taggedWeb :: Unstructured where
  "taggedWeb = web1\<lparr>GetLabels := [(''team'', ''core''), (''env'', ''dev'')]\<rparr>"

definition applyHandler :: CrossplaneHandler where
  "applyHandler = handlerOf
     (instancesClient [taggedWeb]
        (\<lambda>gvr name. if gvr = computeInstances \<and> name = ''web-1'' then Inr taggedWeb
                     else Inl ''not found''))
     []"

section \<open>Properties of the confidence scorer\<close>

lemmas scorer_defs = identitySignals_def nameSignals_def labelSignals_def
  labelContainsSignal_def specSignals_def forProviderOf_def mapField_def stringField_def
  forProviderSignals_def forProviderLabelSignals_def fieldContainsSignal_def ToLower_def
  toLowerChar_def quote_def

lemma fold_accumulate:
  "fold accumulate scores (a, b) =
     (a + (\<Sum>w\<leftarrow>scores. w * w ^ 2), b + (\<Sum>w\<leftarrow>scores. w ^ 2))"
  by (induction scores arbitrary: a b) (simp_all add: accumulate_def Let_def algebra_simps)

lemma sum_squares_nonneg: "0 \<le> (\<Sum>w\<leftarrow>scores. (w::real) ^ 2)"
  by (induction scores) simp_all

lemma sum_squares_pos:
  "scores \<noteq> [] \<Longrightarrow> \<forall>w\<in>set scores. 0 < w \<Longrightarrow> 0 < (\<Sum>w\<leftarrow>scores. (w::real) ^ 2)"
proof (cases scores)
  case Nil
  assume "scores \<noteq> []"
  with Nil show ?thesis by simp
next
  case (Cons a rest)
  assume "\<forall>w\<in>set scores. 0 < w"
  with Cons have "0 < a ^ 2" by simp
  moreover have "0 \<le> (\<Sum>w\<leftarrow>rest. w ^ 2)" by (rule sum_squares_nonneg)
  ultimately have "0 < a ^ 2 + (\<Sum>w\<leftarrow>rest. w ^ 2)" by (rule add_pos_nonneg)
  then show ?thesis using Cons by simp
qed

lemma totalScore_positive_weights:
  assumes "scores \<noteq> []" "\<forall>w\<in>set scores. 0 < w"
  shows "totalScore scores = (\<Sum>w\<leftarrow>scores. w * w ^ 2) / (\<Sum>w\<leftarrow>scores. w ^ 2)"
  using sum_squares_pos[OF assms] by (simp add: totalScore_def fold_accumulate)

text \<open>Every score the scorer appends lies between 0.5 and 0.9.\<close>

lemma nameSignals_weight:
  "s \<in> set (nameSignals r ns) \<Longrightarrow> 0.5 \<le> snd s \<and> snd s \<le> 0.9"
  by (auto simp: nameSignals_def split: if_splits)

lemma labelSignals_weight:
  "s \<in> set (labelSignals ls ns) \<Longrightarrow> 0.5 \<le> snd s \<and> snd s \<le> 0.9"
  by (auto simp: labelSignals_def labelContainsSignal_def split: if_splits)

lemma forProviderSignals_weight:
  "s \<in> set (forProviderSignals fp ns) \<Longrightarrow> 0.5 \<le> snd s \<and> snd s \<le> 0.9"
  by (auto simp: forProviderSignals_def forProviderLabelSignals_def fieldContainsSignal_def
      split: if_splits option.splits jvalue.splits)

lemma specSignals_weight:
  "s \<in> set (specSignals r ns) \<Longrightarrow> 0.5 \<le> snd s \<and> snd s \<le> 0.9"
proof (cases "forProviderOf r")
  case None
  assume "s \<in> set (specSignals r ns)"
  with None show ?thesis by (simp add: specSignals_def)
next
  case (Some fp)
  assume "s \<in> set (specSignals r ns)"
  with Some have "s \<in> set (forProviderSignals fp ns)" by (simp add: specSignals_def)
  then show ?thesis by (rule forProviderSignals_weight)
qed

lemma identitySignals_weight:
  assumes "s \<in> set (identitySignals r ns)"
  shows "0.5 \<le> snd s \<and> snd s \<le> 0.9"
proof -
  from assms consider
      "s \<in> set (nameSignals r ns)"
    | "s \<in> set (labelSignals (GetLabels r) ns)"
    | "s \<in> set (specSignals r ns)"
    by (auto simp: identitySignals_def)
  then show ?thesis
    by cases (rule nameSignals_weight labelSignals_weight specSignals_weight, assumption)+
qed

lemma identitySignals_weight_pos:
  assumes "w \<in> set (map snd (identitySignals r ns))"
  shows "0 < w"
proof -
  from assms obtain s where "s \<in> set (identitySignals r ns)" "w = snd s" by auto
  then have "0.5 \<le> w" using identitySignals_weight by simp
  then show ?thesis by simp
qed

text \<open>
  Claim C1. When no identity signal fires, the scorer returns no reason and confidence 0.
  Otherwise it returns one reason for each signal that fired, in the order of firing, and
  the confidence is the sum of \<open>w * w\<^sup>2\<close> divided by the sum of \<open>w\<^sup>2\<close> over the weights of
  exactly the signals that fired.
\<close>

theorem scorer_weighted_average:
  "(identitySignals r ns = [] \<longrightarrow> evaluateResourceMatchForNamespace r ns = ([], 0)) \<and>
   (identitySignals r ns \<noteq> [] \<longrightarrow>
      evaluateResourceMatchForNamespace r ns =
        (map fst (identitySignals r ns),
         (\<Sum>w\<leftarrow>map snd (identitySignals r ns). w * w ^ 2) /
         (\<Sum>w\<leftarrow>map snd (identitySignals r ns). w ^ 2)) \<and>
      length (fst (evaluateResourceMatchForNamespace r ns)) = length (identitySignals r ns))"
proof (cases "identitySignals r ns = []")
  case True
  then show ?thesis by (simp add: evaluateResourceMatchForNamespace_def)
next
  case False
  then have ne: "map snd (identitySignals r ns) \<noteq> []" by simp
  have pos: "\<forall>w\<in>set (map snd (identitySignals r ns)). 0 < w"
    using identitySignals_weight_pos by blast
  show ?thesis
    using False totalScore_positive_weights[OF ne pos]
    by (simp add: evaluateResourceMatchForNamespace_def Let_def)
qed

theorem scorer_weighted_average_witness:
  "identitySignals teamCache ''billing-prod'' = [] \<and>
   evaluateResourceMatchForNamespace teamCache ''billing-prod'' = ([], 0) \<and>
   identitySignals billingDb ''billing-prod'' \<noteq> [] \<and>
   evaluateResourceMatchForNamespace billingDb ''billing-prod'' =
     ([''Resource name contains namespace: billing-prod'',
       ''Resource has '' @ quote @ ''kubernetes-namespace'' @ quote @
         '' label matching the namespace''],
      1241 / 1450)"
proof -
  have a: "identitySignals teamCache ''billing-prod'' = []"
    by (simp add: scorer_defs teamCache_def plainResource_def)
  have b: "identitySignals billingDb ''billing-prod'' =
      [(''Resource name contains namespace: billing-prod'', 0.8),
       (''Resource has '' @ quote @ ''kubernetes-namespace'' @ quote @
          '' label matching the namespace'', 0.9)]"
    by (simp add: scorer_defs billingDb_def plainResource_def)
  show ?thesis
    using scorer_weighted_average[of teamCache "''billing-prod''"]
      scorer_weighted_average[of billingDb "''billing-prod''"] a
    by (simp add: b power2_eq_square)
qed

section \<open>The kubernetes-namespace label alone\<close>

lemma reason_prefix: "take 15 kubernetesNamespaceReason = ''Resource has '' @ quote @ ''k''"
  by (simp add: kubernetesNamespaceReason_def quote_def)

lemma reason_neq:
  assumes "take 15 s \<noteq> ''Resource has '' @ quote @ ''k''"
  shows "s \<noteq> kubernetesNamespaceReason"
  using assms reason_prefix by auto

lemma name_reason_neq: "''Resource name contains namespace: '' @ ns \<noteq> kubernetesNamespaceReason"
  by (rule reason_neq) (simp add: quote_def)

lemma environment_reason_neq:
  "''Resource has '' @ quote @ ''environment'' @ quote @ '' label matching the namespace''
     \<noteq> kubernetesNamespaceReason"
  by (rule reason_neq) (simp add: quote_def)

lemma label_reason_neq:
  "''Resource has label '' @ quote @ key @ quote @ '' with value containing namespace''
     \<noteq> kubernetesNamespaceReason"
  by (rule reason_neq) (simp add: quote_def)

lemma spec_reason_neq: "''Resource spec'' @ rest \<noteq> kubernetesNamespaceReason"
  by (rule reason_neq) (simp add: quote_def)

lemma nameSignals_reason:
  "(kubernetesNamespaceReason, w) \<notin> set (nameSignals r ns)"
  using name_reason_neq[of ns] by (auto simp: nameSignals_def)

lemma labelContainsSignal_reason:
  "(kubernetesNamespaceReason, w) \<notin> set (labelContainsSignal ns kv)"
  using label_reason_neq[of "fst kv"]
  by (cases kv) (auto simp: labelContainsSignal_def)

lemma labelSignals_reason:
  assumes "(kubernetesNamespaceReason, w) \<in> set (labelSignals ls ns)"
  shows "w = 0.9"
proof -
  have "(kubernetesNamespaceReason, w) \<notin> set (concat (map (labelContainsSignal ns) ls))"
    using labelContainsSignal_reason by auto
  with assms environment_reason_neq show ?thesis
    unfolding labelSignals_def by (auto split: if_splits)
qed

lemma forProviderSignals_reason:
  "(kubernetesNamespaceReason, w) \<notin> set (forProviderSignals fp ns)"
proof -
  have a: "\<And>labels. (kubernetesNamespaceReason, w) \<notin> set (forProviderLabelSignals labels ns)"
    using spec_reason_neq[of "'' has '' @ quote @ ''kubernetes-namespace'' @ quote @ '' label in forProvider.labels''"]
      spec_reason_neq[of "'' has '' @ quote @ ''namespace'' @ quote @ '' label in forProvider.labels''"]
      spec_reason_neq[of "'' has '' @ quote @ ''environment'' @ quote @ '' label in forProvider.labels''"]
    by (auto simp: forProviderLabelSignals_def)
  have b: "\<And>kv. (kubernetesNamespaceReason, w) \<notin> set (fieldContainsSignal ns kv)"
  proof -
    fix kv :: "string \<times> jvalue"
    show "(kubernetesNamespaceReason, w) \<notin> set (fieldContainsSignal ns kv)"
      using spec_reason_neq[of "''.forProvider.'' @ fst kv @ '' contains namespace''"]
      by (cases kv) (auto simp: fieldContainsSignal_def split: jvalue.splits)
  qed
  show ?thesis using a b by (auto simp: forProviderSignals_def split: option.splits)
qed

lemma identitySignals_reason:
  assumes "(kubernetesNamespaceReason, w) \<in> set (identitySignals r ns)"
  shows "w = 0.9"
proof -
  have "(kubernetesNamespaceReason, w) \<notin> set (specSignals r ns)"
    using forProviderSignals_reason by (cases "forProviderOf r") (simp_all add: specSignals_def)
  with assms nameSignals_reason have "(kubernetesNamespaceReason, w) \<in> set (labelSignals (GetLabels r) ns)"
    by (auto simp: identitySignals_def)
  then show ?thesis by (rule labelSignals_reason)
qed

text \<open>
  Claim C7. When the only reason the scorer returns is the exact match of the target name
  against the top-level \<open>kubernetes-namespace\<close> label, so that this is the only signal
  that fired, the confidence is at least 0.85.
\<close>

theorem kubernetes_namespace_label_confidence:
  assumes "fst (evaluateResourceMatchForNamespace r ns) = [kubernetesNamespaceReason]"
  shows "snd (evaluateResourceMatchForNamespace r ns) \<ge> 0.85"
proof -
  have ne: "identitySignals r ns \<noteq> []"
    using assms by (auto simp: evaluateResourceMatchForNamespace_def Let_def)
  then have "map fst (identitySignals r ns) = [kubernetesNamespaceReason]"
    using assms by (simp add: evaluateResourceMatchForNamespace_def Let_def)
  then obtain w where sigs: "identitySignals r ns = [(kubernetesNamespaceReason, w)]"
    by (cases "identitySignals r ns") auto
  then have "w = 0.9" using identitySignals_reason[of w r ns] by simp
  then have "snd (evaluateResourceMatchForNamespace r ns) = 0.9"
    using sigs
    by (simp add: evaluateResourceMatchForNamespace_def Let_def totalScore_def accumulate_def
        power2_eq_square)
  then show ?thesis by simp
qed

theorem kubernetes_namespace_label_confidence_witness:
  "fst (evaluateResourceMatchForNamespace prodDb ''prod'') = [kubernetesNamespaceReason] \<and>
   snd (evaluateResourceMatchForNamespace prodDb ''prod'') \<ge> 0.85"
proof -
  have a: "fst (evaluateResourceMatchForNamespace prodDb ''prod'') = [kubernetesNamespaceReason]"
    by (simp add: evaluateResourceMatchForNamespace_def scorer_defs prodDb_def plainResource_def
        kubernetesNamespaceReason_def)
  show ?thesis using a kubernetes_namespace_label_confidence[OF a] by simp
qed

section \<open>The well-known label keys\<close>

lemma Contains_refl: "Contains s s"
  by (cases s) simp_all

lemma labelSignals_exact_keys:
  assumes "key \<in> {''kubernetes-namespace'', ''namespace'', ''environment''}"
    and "map_of ls key = Some t"
  shows "labelSignals ls t \<noteq> []"
  using assms by (auto simp: labelSignals_def)

lemma labelSignals_other_key:
  assumes "key \<notin> {''kubernetes-namespace'', ''namespace'', ''environment''}"
    and "map_of ls key = Some t"
  shows "labelSignals ls t \<noteq> []"
proof -
  from assms(2) have "(key, t) \<in> set ls" by (rule map_of_SomeD)
  moreover have "labelContainsSignal t (key, t) \<noteq> []"
    using assms(1) by (simp add: labelContainsSignal_def Contains_refl)
  ultimately have "concat (map (labelContainsSignal t) ls) \<noteq> []" by force
  then show ?thesis by (simp add: labelSignals_def)
qed

lemma forProviderLabelSignals_exact_keys:
  assumes "key = ''kubernetes-namespace'' \<or> key = ''namespace'' \<or> key = ''environment''"
    and "stringField ls key = Some t"
  shows "forProviderLabelSignals ls t \<noteq> []"
  using assms by (auto simp: forProviderLabelSignals_def)

text \<open>
  Claim C9, as the code has it. The scorer fires a signal when the target name equals the
  value of \<open>kubernetes-namespace\<close>, \<open>namespace\<close>, \<open>environment\<close>, \<open>workload-name\<close> or
  \<open>app\<close> in the top-level label map (the last two through the containment check on any
  other label), and when it equals the string value of \<open>kubernetes-namespace\<close>,
  \<open>namespace\<close> or \<open>environment\<close> in \<open>spec.forProvider.labels\<close>. The keys
  \<open>workload-name\<close> and \<open>app\<close>, top-level or nested, are matched by the workload matcher
  \<open>isResourceForWorkload\<close>.
\<close>

theorem well_known_label_signals:
  "(key \<in> {''kubernetes-namespace'', ''namespace'', ''environment'', ''workload-name'', ''app''} \<and>
    map_of (GetLabels r) key = Some t \<longrightarrow> identitySignals r t \<noteq> []) \<and>
   (key \<in> {''kubernetes-namespace'', ''namespace'', ''environment''} \<and>
    forProviderOf r = Some fp \<and> mapField fp ''labels'' = Some ls \<and> stringField ls key = Some t
      \<longrightarrow> identitySignals r t \<noteq> []) \<and>
   (key \<in> {''workload-name'', ''app''} \<and>
    (map_of (GetLabels r) key = Some t \<or>
     forProviderOf r = Some fp \<and> mapField fp ''labels'' = Some ls \<and> stringField ls key = Some t)
      \<longrightarrow> isResourceForWorkload r t)"
proof (intro conjI impI)
  assume a: "key \<in> {''kubernetes-namespace'', ''namespace'', ''environment'', ''workload-name'', ''app''} \<and>
    map_of (GetLabels r) key = Some t"
  then have m: "map_of (GetLabels r) key = Some t" by (rule conjunct2)
  have "labelSignals (GetLabels r) t \<noteq> []"
  proof (cases "key \<in> {''kubernetes-namespace'', ''namespace'', ''environment''}")
    case True
    then show ?thesis using m by (rule labelSignals_exact_keys)
  next
    case False
    then show ?thesis using m by (rule labelSignals_other_key)
  qed
  then show "identitySignals r t \<noteq> []" by (simp add: identitySignals_def)
next
  assume a: "key \<in> {''kubernetes-namespace'', ''namespace'', ''environment''} \<and>
    forProviderOf r = Some fp \<and> mapField fp ''labels'' = Some ls \<and> stringField ls key = Some t"
  then have k: "key = ''kubernetes-namespace'' \<or> key = ''namespace'' \<or> key = ''environment''"
    and f: "forProviderOf r = Some fp" and l: "mapField fp ''labels'' = Some ls"
    and s: "stringField ls key = Some t"
    by simp_all
  from k s have "forProviderLabelSignals ls t \<noteq> []"
    by (rule forProviderLabelSignals_exact_keys)
  with f l have "specSignals r t \<noteq> []"
    by (simp add: specSignals_def forProviderSignals_def)
  then show "identitySignals r t \<noteq> []" by (simp add: identitySignals_def)
next
  assume a: "key \<in> {''workload-name'', ''app''} \<and>
    (map_of (GetLabels r) key = Some t \<or>
     forProviderOf r = Some fp \<and> mapField fp ''labels'' = Some ls \<and> stringField ls key = Some t)"
  then have k: "key = ''workload-name'' \<or> key = ''app''" by simp
  from a consider
      (top) "map_of (GetLabels r) key = Some t"
    | (nested) "forProviderOf r = Some fp" "mapField fp ''labels'' = Some ls" "stringField ls key = Some t"
    by blast
  then show "isResourceForWorkload r t"
  proof cases
    case top
    with k show ?thesis by (auto simp: isResourceForWorkload_def)
  next
    case nested
    with k show ?thesis by (auto simp: isResourceForWorkload_def)
  qed
qed

text \<open>
  The claim as it is written fails for the nested keys \<open>workload-name\<close> and \<open>app\<close>: a
  resource whose only link to the target name is \<open>spec.forProvider.labels.app\<close> fires no
  signal, and the scorer returns no reason and confidence 0.
\<close>

theorem nested_app_label_counterexample:
  "forProviderOf appCache = Some [(''labels'', JMap [(''app'', JString ''checkout'')])] \<and>
   stringField [(''app'', JString ''checkout'')] ''app'' = Some ''checkout'' \<and>
   identitySignals appCache ''checkout'' = [] \<and>
   evaluateResourceMatchForNamespace appCache ''checkout'' = ([], 0)"
  by (simp add: evaluateResourceMatchForNamespace_def scorer_defs appCache_def)


theorem well_known_label_signals_witness:
  "map_of (GetLabels appWorker) ''app'' = Some ''checkout'' \<and>
   identitySignals appWorker ''checkout'' \<noteq> [] \<and>
   stringField [(''namespace'', JString ''checkout'')] ''namespace'' = Some ''checkout'' \<and>
   identitySignals nestedNamespace ''checkout'' \<noteq> [] \<and>
   stringField [(''app'', JString ''checkout'')] ''app'' = Some ''checkout'' \<and>
   isResourceForWorkload appCache ''checkout''"
proof -
  have a: "map_of (GetLabels appWorker) ''app'' = Some ''checkout''"
    by (simp add: appWorker_def plainResource_def)
  have b: "forProviderOf nestedNamespace = Some [(''labels'', JMap [(''namespace'', JString ''checkout'')])]"
    by (simp add: nestedNamespace_def forProviderOf_def mapField_def)
  have c: "forProviderOf appCache = Some [(''labels'', JMap [(''app'', JString ''checkout'')])]"
    by (simp add: appCache_def forProviderOf_def mapField_def)
  show ?thesis
    using a b c
      well_known_label_signals[of "''app''" appWorker "''checkout''"]
      well_known_label_signals[of "''namespace''" nestedNamespace "''checkout''"
        "[(''labels'', JMap [(''namespace'', JString ''checkout'')])]"
        "[(''namespace'', JString ''checkout'')]"]
      well_known_label_signals[of "''app''" appCache "''checkout''"
        "[(''labels'', JMap [(''app'', JString ''checkout'')])]"
        "[(''app'', JString ''checkout'')]"]
    by (simp add: mapField_def stringField_def)
qed

section \<open>Independence of the enumeration order of maps\<close>

lemma map_of_permuted:
  assumes "mset xs = mset ys" and "distinct (map fst xs)"
  shows "map_of xs = map_of ys"
proof -
  have "mset (map fst xs) = mset (map fst ys)" using assms(1) by (metis mset_map)
  then have "distinct (map fst ys)" using assms(2) by (metis mset_eq_imp_distinct_iff)
  moreover have "set xs = set ys" using assms(1) by (rule mset_eq_setD)
  ultimately show ?thesis using assms(2) by (simp add: map_of_inject_set)
qed

lemma mset_concat_map_permuted:
  assumes "mset xs = mset ys"
  shows "mset (concat (map f xs)) = mset (concat (map f ys))"
proof -
  have "\<And>zs. mset (concat (map f zs)) = (\<Sum>z\<in>#mset zs. mset (f z))"
    by (induct_tac zs) simp_all
  then show ?thesis using assms by simp
qed

lemma map_snd_constant:
  assumes "\<forall>s\<in>set zs. snd s = c"
  shows "map snd zs = replicate (length zs) c"
  using assms by (induction zs) simp_all

lemma scores_concat_map_permuted:
  assumes "mset xs = mset ys" and "\<And>x s. s \<in> set (f x) \<Longrightarrow> snd s = (c::real)"
  shows "map snd (concat (map f xs)) = map snd (concat (map f ys))"
proof -
  have "length (concat (map f xs)) = length (concat (map f ys))"
    using mset_concat_map_permuted[OF assms(1), of f] by (metis size_mset)
  moreover have "\<forall>s\<in>set (concat (map f xs)). snd s = c" using assms(2) by auto
  then have "map snd (concat (map f xs)) = replicate (length (concat (map f xs))) c"
    by (rule map_snd_constant)
  moreover have "\<forall>s\<in>set (concat (map f ys)). snd s = c" using assms(2) by auto
  then have "map snd (concat (map f ys)) = replicate (length (concat (map f ys))) c"
    by (rule map_snd_constant)
  ultimately show ?thesis by simp
qed

lemma labelContainsSignal_score: "s \<in> set (labelContainsSignal ns kv) \<Longrightarrow> snd s = 0.6"
  by (cases kv) (auto simp: labelContainsSignal_def split: if_splits)

lemma fieldContainsSignal_score: "s \<in> set (fieldContainsSignal ns kv) \<Longrightarrow> snd s = 0.5"
  by (cases kv) (auto simp: fieldContainsSignal_def split: if_splits jvalue.splits)

lemma labelSignals_permuted:
  assumes "mset ls1 = mset ls2" and "distinct (map fst ls1)"
  shows "map snd (labelSignals ls1 ns) = map snd (labelSignals ls2 ns)"
    and "mset (map fst (labelSignals ls1 ns)) = mset (map fst (labelSignals ls2 ns))"
proof -
  have m: "map_of ls1 = map_of ls2" using assms by (rule map_of_permuted)
  have s: "map snd (concat (map (labelContainsSignal ns) ls1)) =
           map snd (concat (map (labelContainsSignal ns) ls2))"
    using assms(1) labelContainsSignal_score by (rule scores_concat_map_permuted)
  have r: "mset (concat (map (labelContainsSignal ns) ls1)) =
           mset (concat (map (labelContainsSignal ns) ls2))"
    using assms(1) by (rule mset_concat_map_permuted)
  show "map snd (labelSignals ls1 ns) = map snd (labelSignals ls2 ns)"
    unfolding labelSignals_def m using s by simp
  have "mset (labelSignals ls1 ns) = mset (labelSignals ls2 ns)"
    unfolding labelSignals_def m using r by simp
  then show "mset (map fst (labelSignals ls1 ns)) = mset (map fst (labelSignals ls2 ns))"
    by (metis mset_map)
qed

lemma forProviderSignals_permuted:
  assumes "mset fp1 = mset fp2" and "distinct (map fst fp1)"
  shows "map snd (forProviderSignals fp1 ns) = map snd (forProviderSignals fp2 ns)"
    and "mset (map fst (forProviderSignals fp1 ns)) = mset (map fst (forProviderSignals fp2 ns))"
proof -
  have m: "map_of fp1 = map_of fp2" using assms by (rule map_of_permuted)
  then have l: "mapField fp1 ''labels'' = mapField fp2 ''labels''" by (simp add: mapField_def)
  have s: "map snd (concat (map (fieldContainsSignal ns) fp1)) =
           map snd (concat (map (fieldContainsSignal ns) fp2))"
    using assms(1) fieldContainsSignal_score by (rule scores_concat_map_permuted)
  have r: "mset (concat (map (fieldContainsSignal ns) fp1)) =
           mset (concat (map (fieldContainsSignal ns) fp2))"
    using assms(1) by (rule mset_concat_map_permuted)
  show "map snd (forProviderSignals fp1 ns) = map snd (forProviderSignals fp2 ns)"
    unfolding forProviderSignals_def l using s by simp
  have "mset (forProviderSignals fp1 ns) = mset (forProviderSignals fp2 ns)"
    unfolding forProviderSignals_def l using r by simp
  then show "mset (map fst (forProviderSignals fp1 ns)) = mset (map fst (forProviderSignals fp2 ns))"
    by (metis mset_map)
qed

lemma specSignals_permuted:
  assumes "rel_option sameEntries (forProviderOf r1) (forProviderOf r2)"
  shows "map snd (specSignals r1 ns) = map snd (specSignals r2 ns)"
    and "mset (map fst (specSignals r1 ns)) = mset (map fst (specSignals r2 ns))"
  using assms forProviderSignals_permuted
  by (auto simp: specSignals_def sameEntries_def elim!: option.rel_cases)

text \<open>
  Claim C10. Two runs of the scorer on the same resource and target name that enumerate
  the top-level label map and the entries of \<open>spec.forProvider\<close> in different orders
  return the same confidence; the reasons are the same up to their order.
\<close>

theorem confidence_independent_of_enumeration_order:
  assumes "GetName r1 = GetName r2"
    and "sameEntries (GetLabels r1) (GetLabels r2)"
    and "rel_option sameEntries (forProviderOf r1) (forProviderOf r2)"
  shows "snd (evaluateResourceMatchForNamespace r1 ns) = snd (evaluateResourceMatchForNamespace r2 ns) \<and>
         mset (fst (evaluateResourceMatchForNamespace r1 ns)) =
         mset (fst (evaluateResourceMatchForNamespace r2 ns))"
proof -
  have n: "nameSignals r1 ns = nameSignals r2 ns" using assms(1) by (simp add: nameSignals_def)
  have l: "map snd (labelSignals (GetLabels r1) ns) = map snd (labelSignals (GetLabels r2) ns)"
    "mset (map fst (labelSignals (GetLabels r1) ns)) = mset (map fst (labelSignals (GetLabels r2) ns))"
    using assms(2) labelSignals_permuted unfolding sameEntries_def by blast+
  note s = specSignals_permuted[OF assms(3), of ns]
  have scores: "map snd (identitySignals r1 ns) = map snd (identitySignals r2 ns)"
    by (simp add: identitySignals_def n l(1) s(1))
  have reasons: "mset (map fst (identitySignals r1 ns)) = mset (map fst (identitySignals r2 ns))"
    using l(2) s(2) by (simp add: identitySignals_def n)
  show ?thesis
    using reasons unfolding evaluateResourceMatchForNamespace_def Let_def scores
    by simp
qed


theorem confidence_independent_of_enumeration_order_witness:
  "GetName ledgerOne = GetName ledgerTwo \<and>
   sameEntries (GetLabels ledgerOne) (GetLabels ledgerTwo) \<and>
   rel_option sameEntries (forProviderOf ledgerOne) (forProviderOf ledgerTwo) \<and>
   fst (evaluateResourceMatchForNamespace ledgerOne ''pay'') \<noteq>
   fst (evaluateResourceMatchForNamespace ledgerTwo ''pay'') \<and>
   snd (evaluateResourceMatchForNamespace ledgerOne ''pay'') =
   snd (evaluateResourceMatchForNamespace ledgerTwo ''pay'') \<and>
   mset (fst (evaluateResourceMatchForNamespace ledgerOne ''pay'')) =
   mset (fst (evaluateResourceMatchForNamespace ledgerTwo ''pay''))"
proof -
  have a: "GetName ledgerOne = GetName ledgerTwo"
    by (simp add: ledgerOne_def ledgerTwo_def ledger_def)
  have b: "sameEntries (GetLabels ledgerOne) (GetLabels ledgerTwo)"
    by (simp add: ledgerOne_def ledgerTwo_def ledger_def sameEntries_def)
  have c: "rel_option sameEntries (forProviderOf ledgerOne) (forProviderOf ledgerTwo)"
    by (simp add: ledgerOne_def ledgerTwo_def ledger_def sameEntries_def forProviderOf_def
        mapField_def)
  have d: "fst (evaluateResourceMatchForNamespace ledgerOne ''pay'') \<noteq>
           fst (evaluateResourceMatchForNamespace ledgerTwo ''pay'')"
    by (simp add: evaluateResourceMatchForNamespace_def scorer_defs ledgerOne_def ledgerTwo_def
        ledger_def)
  show ?thesis
    using a b c d confidence_independent_of_enumeration_order[OF a b c, of "''pay''"] by simp
qed

section \<open>Properties of the sort\<close>

lemma length_swap: "length (swap xs i j) = length xs"
  by (simp add: swap_def)

lemma mset_swap_matches: "i < length xs \<Longrightarrow> j < length xs \<Longrightarrow> mset (swap xs i j) = mset xs"
  unfolding swap_def by (rule mset_swap)

lemma length_compareSwap: "length (compareSwap i j ms) = length ms"
  by (simp add: compareSwap_def length_swap)

lemma mset_compareSwap:
  "i < length ms \<Longrightarrow> j < length ms \<Longrightarrow> mset (compareSwap i j ms) = mset ms"
  by (simp add: compareSwap_def mset_swap_matches)

lemma compareSwap_nth_other:
  "k \<noteq> i \<Longrightarrow> k \<noteq> j \<Longrightarrow> compareSwap i j ms ! k = ms ! k"
  by (simp add: compareSwap_def swap_def)

lemma compareSwap_pivot:
  assumes "i < length ms" "j < length ms" "i \<noteq> j"
  shows "ConfidenceScore (compareSwap i j ms ! j) \<le> ConfidenceScore (compareSwap i j ms ! i)"
    and "ConfidenceScore (ms ! i) \<le> ConfidenceScore (compareSwap i j ms ! i)"
  using assms by (auto simp: compareSwap_def swap_def)

text \<open>The inner loop, run over the indices from \<open>a\<close> up to \<open>b\<close>.\<close>

lemma inner_invariant:
  assumes "i < a" "b \<le> length ms"
  shows "length (fold (compareSwap i) [a ..< b] ms) = length ms \<and>
         mset (fold (compareSwap i) [a ..< b] ms) = mset ms \<and>
         (\<forall>k. k < i \<longrightarrow> fold (compareSwap i) [a ..< b] ms ! k = ms ! k) \<and>
         (\<forall>k. a \<le> k \<and> k < b \<longrightarrow>
            ConfidenceScore (fold (compareSwap i) [a ..< b] ms ! k)
              \<le> ConfidenceScore (fold (compareSwap i) [a ..< b] ms ! i))"
  using assms(2)
proof (induction b)
  case 0
  then show ?case by simp
next
  case (Suc b)
  show ?case
  proof (cases "a \<le> b")
    case False
    then show ?thesis by simp
  next
    case True
    let ?res = "fold (compareSwap i) [a ..< b] ms"
    have step: "fold (compareSwap i) [a ..< Suc b] ms = compareSwap i b ?res"
      using True by simp
    have ih: "length ?res = length ms" "mset ?res = mset ms"
      "\<forall>k. k < i \<longrightarrow> ?res ! k = ms ! k"
      "\<forall>k. a \<le> k \<and> k < b \<longrightarrow> ConfidenceScore (?res ! k) \<le> ConfidenceScore (?res ! i)"
      using Suc by simp_all
    have ib: "i < length ?res" "b < length ?res" "i \<noteq> b"
      using assms(1) True Suc.prems ih(1) by simp_all
    have 1: "length (compareSwap i b ?res) = length ms"
      using ih(1) by (simp add: length_compareSwap)
    have 2: "mset (compareSwap i b ?res) = mset ms"
      using ib ih(2) by (simp add: mset_compareSwap)
    have 3: "\<forall>k. k < i \<longrightarrow> compareSwap i b ?res ! k = ms ! k"
      using ih(3) assms(1) True by (simp add: compareSwap_nth_other)
    have 4: "\<forall>k. a \<le> k \<and> k < Suc b \<longrightarrow>
            ConfidenceScore (compareSwap i b ?res ! k) \<le> ConfidenceScore (compareSwap i b ?res ! i)"
    proof (intro allI impI)
      fix k assume k: "a \<le> k \<and> k < Suc b"
      show "ConfidenceScore (compareSwap i b ?res ! k) \<le> ConfidenceScore (compareSwap i b ?res ! i)"
      proof (cases "k = b")
        case True
        then show ?thesis using compareSwap_pivot(1)[OF ib] by simp
      next
        case False
        then have kb: "k < b" "k \<noteq> i" using k assms(1) by simp_all
        then have "compareSwap i b ?res ! k = ?res ! k"
          by (simp add: compareSwap_nth_other)
        moreover have "ConfidenceScore (?res ! k) \<le> ConfidenceScore (?res ! i)"
          using ih(4) k kb by simp
        moreover have "ConfidenceScore (?res ! i) \<le> ConfidenceScore (compareSwap i b ?res ! i)"
          by (rule compareSwap_pivot(2)[OF ib])
        ultimately show ?thesis by simp
      qed
    qed
    show ?thesis unfolding step using 1 2 3 4 by blast
  qed
qed

lemma innerLoop_props:
  assumes "i < length ms"
  shows "length (innerLoop i ms) = length ms"
    and "mset (innerLoop i ms) = mset ms"
    and "\<forall>k. k < i \<longrightarrow> innerLoop i ms ! k = ms ! k"
    and "\<forall>k. i < k \<and> k < length ms \<longrightarrow>
           ConfidenceScore (innerLoop i ms ! k) \<le> ConfidenceScore (innerLoop i ms ! i)"
  using inner_invariant[of i "i + 1" "length ms" ms]
  unfolding innerLoop_def by auto

lemma innerLoop_drop:
  assumes "i < length ms"
  shows "mset (drop i (innerLoop i ms)) = mset (drop i ms)"
proof -
  have "take i (innerLoop i ms) = take i ms"
    using innerLoop_props(1,3)[OF assms] assms by (simp add: list_eq_iff_nth_eq)
  moreover have "mset (take i (innerLoop i ms)) + mset (drop i (innerLoop i ms)) =
                 mset (take i ms) + mset (drop i ms)"
    using innerLoop_props(2)[OF assms] by (metis append_take_drop_id mset_append)
  ultimately show ?thesis by simp
qed


text \<open>The outer loop, after the indices below \<open>i\<close>.\<close>

lemma outer_invariant:
  assumes "i \<le> length ms"
  shows "length (fold innerLoop [0 ..< i] ms) = length ms \<and>
         mset (fold innerLoop [0 ..< i] ms) = mset ms \<and>
         (\<forall>k l. k < i \<and> k < l \<and> l < length ms \<longrightarrow>
            ConfidenceScore (fold innerLoop [0 ..< i] ms ! l)
              \<le> ConfidenceScore (fold innerLoop [0 ..< i] ms ! k))"
  using assms
proof (induction i)
  case 0
  then show ?case by simp
next
  case (Suc i)
  let ?res = "fold innerLoop [0 ..< i] ms"
  have step: "fold innerLoop [0 ..< Suc i] ms = innerLoop i ?res" by simp
  have ih: "length ?res = length ms" "mset ?res = mset ms"
    "\<forall>k l. k < i \<and> k < l \<and> l < length ms \<longrightarrow>
        ConfidenceScore (?res ! l) \<le> ConfidenceScore (?res ! k)"
    using Suc by simp_all
  have i: "i < length ?res" using Suc.prems ih(1) by simp
  note p = innerLoop_props[OF i]
  have 3: "\<forall>k l. k < Suc i \<and> k < l \<and> l < length ms \<longrightarrow>
        ConfidenceScore (innerLoop i ?res ! l) \<le> ConfidenceScore (innerLoop i ?res ! k)"
  proof (intro allI impI)
    fix k l assume kl: "k < Suc i \<and> k < l \<and> l < length ms"
    show "ConfidenceScore (innerLoop i ?res ! l) \<le> ConfidenceScore (innerLoop i ?res ! k)"
    proof (cases "k = i")
      case True
      then show ?thesis using p(4) kl ih(1) by simp
    next
      case False
      then have k: "k < i" using kl by simp
      then have eqk: "innerLoop i ?res ! k = ?res ! k" using p(3) by simp
      show ?thesis
      proof (cases "l < i")
        case True
        then have "innerLoop i ?res ! l = ?res ! l" using p(3) by simp
        then show ?thesis using eqk ih(3) k kl by simp
      next
        case False
        then have "innerLoop i ?res ! l = drop i (innerLoop i ?res) ! (l - i)"
          using kl p(1) ih(1) by simp
        moreover have "l - i < length (drop i (innerLoop i ?res))"
          using False kl p(1) ih(1) by (simp add: less_diff_conv2)
        ultimately have "innerLoop i ?res ! l \<in> set (drop i (innerLoop i ?res))"
          by (metis nth_mem)
        then have "innerLoop i ?res ! l \<in> set (drop i ?res)"
          using innerLoop_drop[OF i] by (metis set_mset_mset)
        then obtain m where m: "m < length (drop i ?res)" "drop i ?res ! m = innerLoop i ?res ! l"
          by (auto simp: in_set_conv_nth)
        then have "innerLoop i ?res ! l = ?res ! (i + m)" "i + m < length ms"
          using ih(1) by simp_all
        then show ?thesis using eqk ih(3) k by simp
      qed
    qed
  qed
  show ?case unfolding step using p(1,2) ih(1,2) 3 by simp
qed

lemma sortMatchesByConfidence_mset: "mset (sortMatchesByConfidence ms) = mset ms"
  using outer_invariant[of "length ms" ms] by (simp add: sortMatchesByConfidence_def)

lemma sortMatchesByConfidence_descending:
  "sorted_wrt (\<lambda>a b. ConfidenceScore a \<ge> ConfidenceScore b) (sortMatchesByConfidence ms)"
  using outer_invariant[of "length ms" ms]
  by (simp add: sortMatchesByConfidence_def sorted_wrt_iff_nth_less)

section \<open>Properties of the metadata pass\<close>

lemma scanType_items:
  "scanType client ns gvr st =
     fold (scanItem ns) (case clientList client gvr of Inl err \<Rightarrow> [] | Inr items \<Rightarrow> items) st"
  by (simp add: scanType_def split: sum.splits)

lemma fold_scanType:
  "fold (scanType client ns) gvrs st =
     fold (scanItem ns)
       (concat (map (\<lambda>gvr. case clientList client gvr of Inl err \<Rightarrow> [] | Inr items \<Rightarrow> items) gvrs)) st"
  by (induction gvrs arbitrary: st) (simp_all add: scanType_items)

lemma metadataPass_items:
  "metadataPass client ns = fst (fold (scanItem ns) (listedItems client) ([], {}))"
  by (simp add: metadataPass_def listedItems_def fold_scanType)

lemma scanItem_state:
  assumes "scanState ns items st"
  shows "scanState ns (items @ [item]) (scanItem ns item st)"
proof -
  obtain matches found where st: "st = (matches, found)" by (cases st)
  obtain reasons conf where ev: "evaluateResourceMatchForNamespace item ns = (reasons, conf)"
    by (cases "evaluateResourceMatchForNamespace item ns")
  show ?thesis
  proof (cases "resourceKey (GetKind item) (GetName item) \<in> found")
    case True
    then show ?thesis using assms st by (auto simp: scanState_def scanItem_def itemKey_def)
  next
    case False
    show ?thesis
    proof (cases "conf > 0.3")
      case True
      then show ?thesis
        using assms st ev False
        by (auto simp: scanState_def scanItem_def itemKey_def matchKey_def)
    next
      case False
      then show ?thesis
        using assms st ev by (auto simp: scanState_def scanItem_def itemKey_def)
    qed
  qed
qed

lemma fold_scanItem_state:
  assumes "scanState ns seen st"
  shows "scanState ns (seen @ items) (fold (scanItem ns) items st)"
  using assms
proof (induction items arbitrary: seen st)
  case Nil
  then show ?case by simp
next
  case (Cons item items)
  have "scanState ns ((seen @ [item]) @ items) (fold (scanItem ns) items (scanItem ns item st))"
    using Cons.prems by (intro Cons.IH scanItem_state)
  then show ?case by simp
qed

lemma metadataPass_state:
  "scanState ns (listedItems client) (fold (scanItem ns) (listedItems client) ([], {}))"
  using fold_scanItem_state[of ns "[]" "([], {})" "listedItems client"]
  by (simp add: scanState_def)


lemma BuildNetworkMap_client [simp]:
  "dynamicClient (BuildNetworkMap h now) = dynamicClient h"
  "mockMode (BuildNetworkMap h now) = mockMode h"
  by (simp_all add: BuildNetworkMap_def)

lemma Find_matches:
  "\<not> mockMode h \<Longrightarrow>
   fst (FindCrossplaneResourcesForNamespaceWithConfidence h clock ns) =
     sortMatchesByConfidence (metadataPass (dynamicClient h) ns)"
  by (simp add: FindCrossplaneResourcesForNamespaceWithConfidence_def Let_def)

lemma listedItems_instancesClient: "listedItems (instancesClient items get) = items"
  by (simp add: listedItems_def instancesClient_def GetCrossplaneResourceTypes_def
      computeInstances_def resourceType_def)

lemma pay_scores:
  "evaluateResourceMatchForNamespace payApi ''pay'' =
     ([''Resource name contains namespace: pay''], 0.8)"
  "evaluateResourceMatchForNamespace payWorker ''pay'' =
     ([''Resource name contains namespace: pay''], 0.8)"
  "evaluateResourceMatchForNamespace payLedger ''pay'' = ([kubernetesNamespaceReason], 0.9)"
  by (simp_all add: evaluateResourceMatchForNamespace_def scorer_defs payApi_def payWorker_def
      payLedger_def plainResource_def kubernetesNamespaceReason_def totalScore_def accumulate_def
      power2_eq_square)

lemma pay_metadataPass:
  "metadataPass payClient ''pay'' =
     [\<lparr>Resource = payApi, ConfidenceScore = 0.8,
       MatchReasons = [''Resource name contains namespace: pay'']\<rparr>,
      \<lparr>Resource = payWorker, ConfidenceScore = 0.8,
       MatchReasons = [''Resource name contains namespace: pay'']\<rparr>,
      \<lparr>Resource = payLedger, ConfidenceScore = 0.9, MatchReasons = [kubernetesNamespaceReason]\<rparr>]"
proof -
  have k: "resourceKey (GetKind payApi) (GetName payApi) = ''Instance/pay-api''"
    "resourceKey (GetKind payWorker) (GetName payWorker) = ''Instance/pay-worker''"
    "resourceKey (GetKind payLedger) (GetName payLedger) = ''Instance/ledger''"
    by (simp_all add: resourceKey_def payApi_def payWorker_def payLedger_def plainResource_def)
  show ?thesis
    by (simp add: metadataPass_items payClient_def listedItems_instancesClient scanItem_def
        pay_scores k)
qed

lemma pay_sorted:
  "sortMatchesByConfidence (metadataPass payClient ''pay'') =
     [\<lparr>Resource = payLedger, ConfidenceScore = 0.9, MatchReasons = [kubernetesNamespaceReason]\<rparr>,
      \<lparr>Resource = payWorker, ConfidenceScore = 0.8,
       MatchReasons = [''Resource name contains namespace: pay'']\<rparr>,
      \<lparr>Resource = payApi, ConfidenceScore = 0.8,
       MatchReasons = [''Resource name contains namespace: pay'']\<rparr>]"
  unfolding pay_metadataPass
  by (simp add: sortMatchesByConfidence_def innerLoop_def compareSwap_def swap_def
      numeral_3_eq_3 numeral_2_eq_2)


lemma pay_Find:
  "fst (FindCrossplaneResourcesForNamespaceWithConfidence (handlerOf payClient []) (0, 0) ''pay'') =
     sortMatchesByConfidence (metadataPass payClient ''pay'')"
  by (simp add: FindCrossplaneResourcesForNamespaceWithConfidence_def handlerOf_def Minute_def)

section \<open>Properties of the network phase\<close>

lemma fold_insert_keys:
  "fold (\<lambda>m found. insert (matchKey m) found) matches S = S \<union> matchKey ` set matches"
  by (induction matches arbitrary: S) auto

lemma connectResource_netState:
  assumes "netState st" "fetchesIdentified client cr"
  shows "netState (connectResource client podIP cr st)"
proof -
  obtain matches found where st: "st = (matches, found)" by (cases st)
  show ?thesis
  proof (cases "resourceKey (Kind cr) (Name cr) \<in> found")
    case True
    then show ?thesis using assms(1) st by (simp add: connectResource_def)
  next
    case False
    show ?thesis
    proof (cases "clientGet client (identifierGVR cr) (Name cr)")
      case (Inl err)
      then show ?thesis using assms(1) st False by (simp add: connectResource_def)
    next
      case (Inr resource)
      then have "GetKind resource = Kind cr" "GetName resource = Name cr"
        using assms(2) by (simp_all add: fetchesIdentified_def)
      then show ?thesis
        using assms(1) st False Inr
        by (auto simp: connectResource_def netState_def matchKey_def)
    qed
  qed
qed

lemma fold_connectResource_netState:
  assumes "netState st" "list_all (fetchesIdentified client) crs"
  shows "netState (fold (connectResource client podIP) crs st)"
  using assms
  by (induction crs arbitrary: st) (simp_all add: connectResource_netState)

lemma checkPodIP_netState:
  assumes "netState st" "fetchFaithful client ipMap"
  shows "netState (checkPodIP client ipMap podIP st)"
proof (cases "map_of ipMap podIP")
  case None
  then show ?thesis using assms(1) by (simp add: checkPodIP_def)
next
  case (Some crs)
  then have "(podIP, crs) \<in> set ipMap" by (rule map_of_SomeD)
  then have "list_all (fetchesIdentified client) crs"
    using assms(2) by (auto simp: fetchFaithful_def list_all_iff)
  then show ?thesis
    using assms(1) Some by (simp add: checkPodIP_def fold_connectResource_netState)
qed

lemma fold_checkPodIP_netState:
  assumes "netState st" "fetchFaithful client ipMap"
  shows "netState (fold (checkPodIP client ipMap) podIPs st)"
  using assms(1)
  by (induction podIPs arbitrary: st) (simp_all add: checkPodIP_netState assms(2))

lemma metadataPass_distinct: "distinct (map matchKey (metadataPass client ns))"
proof -
  obtain found where
    f: "fold (scanItem ns) (listedItems client) ([], {}) = (metadataPass client ns, found)"
    by (cases "fold (scanItem ns) (listedItems client) ([], {})") (simp add: metadataPass_items)
  have "scanState ns (listedItems client) (metadataPass client ns, found)"
    using metadataPass_state[of ns client] unfolding f .
  then show ?thesis by (simp add: scanState_def)
qed

lemma sort_distinct_keys:
  "distinct (map matchKey (sortMatchesByConfidence ms)) = distinct (map matchKey ms)"
proof -
  have "mset (map matchKey (sortMatchesByConfidence ms)) = mset (map matchKey ms)"
    by (simp add: sortMatchesByConfidence_mset)
  then show ?thesis by (rule mset_eq_imp_distinct_iff)
qed

lemma Find_distinct:
  "distinct (map matchKey (fst (FindCrossplaneResourcesForNamespaceWithConfidence h clock ns)))"
  by (cases "mockMode h")
     (simp_all add: FindCrossplaneResourcesForNamespaceWithConfidence_def Let_def
        sort_distinct_keys metadataPass_distinct)


lemma Find_client [simp]:
  "dynamicClient (snd (FindCrossplaneResourcesForNamespaceWithConfidence h clock ns)) = dynamicClient h"
  "mockMode (snd (FindCrossplaneResourcesForNamespaceWithConfidence h clock ns)) = mockMode h"
  by (simp_all add: FindCrossplaneResourcesForNamespaceWithConfidence_def Let_def)

lemma refreshed_client [simp]:
  "dynamicClient (refreshed h clock) = dynamicClient h"
  by (simp add: refreshed_def)

lemma Networking_early:
  assumes "podIPs = [] \<or> mockMode h"
  shows "FindCrossplaneResourcesForNamespaceWithNetworking h clock1 clock2 ns podIPs =
         FindCrossplaneResourcesForNamespaceWithConfidence h clock1 ns"
proof -
  obtain ms h1 where f: "FindCrossplaneResourcesForNamespaceWithConfidence h clock1 ns = (ms, h1)"
    by (cases "FindCrossplaneResourcesForNamespaceWithConfidence h clock1 ns")
  have "mockMode h1 = mockMode h" using Find_client(2)[of h clock1 ns] f by simp
  then show ?thesis
    using assms f by (auto simp: FindCrossplaneResourcesForNamespaceWithNetworking_def)
qed

lemma Networking_phase:
  assumes "podIPs \<noteq> []" "\<not> mockMode h"
  shows "FindCrossplaneResourcesForNamespaceWithNetworking h clock1 clock2 ns podIPs =
     (sortMatchesByConfidence
        (fst (fold (checkPodIP (dynamicClient h)
                      (resourceIPMap (refreshed
                         (snd (FindCrossplaneResourcesForNamespaceWithConfidence h clock1 ns)) clock2)))
                podIPs
                (fst (FindCrossplaneResourcesForNamespaceWithConfidence h clock1 ns),
                 matchKey ` set (fst (FindCrossplaneResourcesForNamespaceWithConfidence h clock1 ns))))),
      refreshed (snd (FindCrossplaneResourcesForNamespaceWithConfidence h clock1 ns)) clock2)"
proof -
  obtain ms h1 where f: "FindCrossplaneResourcesForNamespaceWithConfidence h clock1 ns = (ms, h1)"
    by (cases "FindCrossplaneResourcesForNamespaceWithConfidence h clock1 ns")
  have m: "mockMode h1 = mockMode h" "dynamicClient h1 = dynamicClient h"
    using Find_client[of h clock1 ns] f by simp_all
  show ?thesis
    using assms m
    by (simp add: FindCrossplaneResourcesForNamespaceWithNetworking_def f Let_def
        fold_insert_keys refreshed_def)
qed

text \<open>
  Claim C4. For every target name, \<open>FindCrossplaneResourcesForNamespaceWithConfidence\<close>
  never returns two matches with the same \<open>kind/name\<close> key. For every list of observed
  addresses, neither does \<open>FindCrossplaneResourcesForNamespaceWithNetworking\<close>, across the
  metadata pass and the network phase, on a store that returns for each identifier of the
  index the object of that kind and name.
\<close>

theorem no_duplicate_resource_keys:
  "distinct (map matchKey (fst (FindCrossplaneResourcesForNamespaceWithConfidence h clock1 ns))) \<and>
   (fetchFaithful (dynamicClient h)
      (resourceIPMap (snd (FindCrossplaneResourcesForNamespaceWithNetworking h clock1 clock2 ns podIPs)))
    \<longrightarrow> distinct (map matchKey
          (fst (FindCrossplaneResourcesForNamespaceWithNetworking h clock1 clock2 ns podIPs))))"
proof (intro conjI impI)
  show "distinct (map matchKey (fst (FindCrossplaneResourcesForNamespaceWithConfidence h clock1 ns)))"
    by (rule Find_distinct)
next
  assume ff: "fetchFaithful (dynamicClient h)
      (resourceIPMap (snd (FindCrossplaneResourcesForNamespaceWithNetworking h clock1 clock2 ns podIPs)))"
  show "distinct (map matchKey
          (fst (FindCrossplaneResourcesForNamespaceWithNetworking h clock1 clock2 ns podIPs)))"
  proof (cases "podIPs = [] \<or> mockMode h")
    case True
    then show ?thesis by (simp only: Networking_early Find_distinct)
  next
    case False
    then have p: "podIPs \<noteq> []" "\<not> mockMode h" by simp_all
    let ?ms = "fst (FindCrossplaneResourcesForNamespaceWithConfidence h clock1 ns)"
    let ?idx = "resourceIPMap (refreshed
                   (snd (FindCrossplaneResourcesForNamespaceWithConfidence h clock1 ns)) clock2)"
    have ff': "fetchFaithful (dynamicClient h) ?idx"
      using ff unfolding Networking_phase[OF p] by simp
    have "netState (?ms, matchKey ` set ?ms)"
      using Find_distinct[of h clock1 ns] by (simp add: netState_def)
    then have "netState (fold (checkPodIP (dynamicClient h) ?idx) podIPs (?ms, matchKey ` set ?ms))"
      using ff' by (rule fold_checkPodIP_netState)
    then have "distinct (map matchKey
        (fst (fold (checkPodIP (dynamicClient h) ?idx) podIPs (?ms, matchKey ` set ?ms))))"
      by (simp add: netState_def split: prod.splits)
    then show ?thesis
      unfolding Networking_phase[OF p] by (simp add: sort_distinct_keys)
  qed
qed

text \<open>
  Claim C5. With an empty list of observed addresses,
  \<open>FindCrossplaneResourcesForNamespaceWithNetworking\<close> returns what
  \<open>FindCrossplaneResourcesForNamespaceWithConfidence\<close> returns: the same matches in the
  same order, and the same state of the handler.
\<close>

theorem empty_addresses_same_as_resolveByName:
  "FindCrossplaneResourcesForNamespaceWithNetworking h clock1 clock2 ns [] =
   FindCrossplaneResourcesForNamespaceWithConfidence h clock1 ns"
  by (simp add: Networking_early)


lemma connectResource_added:
  assumes "metadataKeys \<subseteq> found" "cr \<in> set crs" "map_of ipMap podIP = Some crs"
    "podIP \<in> set podIPs"
  shows "\<exists>added found'.
           connectResource client podIP cr (ms, found) = (ms @ added, found') \<and>
           metadataKeys \<subseteq> found' \<and>
           (\<forall>m\<in>set added. networkSourced client ipMap podIPs metadataKeys m)"
proof (cases "resourceKey (Kind cr) (Name cr) \<in> found")
  case True
  then have "connectResource client podIP cr (ms, found) = (ms @ [], found)"
    by (simp add: connectResource_def)
  then show ?thesis using assms(1) by fastforce
next
  case False
  show ?thesis
  proof (cases "clientGet client (identifierGVR cr) (Name cr)")
    case (Inl err)
    then have "connectResource client podIP cr (ms, found) = (ms @ [], found)"
      using False by (simp add: connectResource_def)
    then show ?thesis using assms(1) by fastforce
  next
    case (Inr resource)
    let ?m = "\<lparr>Resource = resource, ConfidenceScore = 0.9,
               MatchReasons = [''Network connection detected from pod IP '' @ podIP]\<rparr>"
    have step: "connectResource client podIP cr (ms, found) =
                  (ms @ [?m], insert (resourceKey (Kind cr) (Name cr)) found)"
      using False Inr by (simp add: connectResource_def)
    have "resourceKey (Kind cr) (Name cr) \<notin> metadataKeys" using False assms(1) by blast
    then have "list_ex (\<lambda>c. resourceKey (Kind c) (Name c) \<notin> metadataKeys \<and>
                 clientGet client (identifierGVR c) (Name c) = Inr (Resource ?m)) crs"
      using assms(2) Inr by (auto simp: list_ex_iff)
    then have "networkSourced client ipMap podIPs metadataKeys ?m"
      using assms(3,4) by (auto simp: networkSourced_def list_ex_iff)
    moreover have "metadataKeys \<subseteq> insert (resourceKey (Kind cr) (Name cr)) found"
      using assms(1) by blast
    ultimately show ?thesis using step by fastforce
  qed
qed

lemma fold_connectResource_added:
  assumes "metadataKeys \<subseteq> found" "set crs' \<subseteq> set crs" "map_of ipMap podIP = Some crs"
    "podIP \<in> set podIPs"
  shows "\<exists>added found'.
           fold (connectResource client podIP) crs' (ms, found) = (ms @ added, found') \<and>
           metadataKeys \<subseteq> found' \<and>
           (\<forall>m\<in>set added. networkSourced client ipMap podIPs metadataKeys m)"
  using assms(1,2)
proof (induction crs' arbitrary: ms found)
  case Nil
  then have "fold (connectResource client podIP) [] (ms, found) = (ms @ [], found)" by simp
  then show ?case using Nil.prems(1) by fastforce
next
  case (Cons cr rest)
  then have "cr \<in> set crs" by simp
  with Cons.prems(1) obtain a1 f1 where
    s1: "connectResource client podIP cr (ms, found) = (ms @ a1, f1)" "metadataKeys \<subseteq> f1"
      "\<forall>m\<in>set a1. networkSourced client ipMap podIPs metadataKeys m"
    using connectResource_added[OF _ _ assms(3,4), of metadataKeys found cr client ms] by blast
  have "set rest \<subseteq> set crs" using Cons.prems(2) by simp
  with s1(2) obtain a2 f2 where
    s2: "fold (connectResource client podIP) rest (ms @ a1, f1) = ((ms @ a1) @ a2, f2)"
      "metadataKeys \<subseteq> f2"
      "\<forall>m\<in>set a2. networkSourced client ipMap podIPs metadataKeys m"
    using Cons.IH[of f1 "ms @ a1"] by blast
  have "fold (connectResource client podIP) (cr # rest) (ms, found) = (ms @ (a1 @ a2), f2)"
    using s1(1) s2(1) by simp
  moreover have "\<forall>m\<in>set (a1 @ a2). networkSourced client ipMap podIPs metadataKeys m"
    using s1(3) s2(3) by auto
  ultimately show ?case using s2(2) by blast
qed

lemma checkPodIP_added:
  assumes "metadataKeys \<subseteq> found" "podIP \<in> set podIPs"
  shows "\<exists>added found'.
           checkPodIP client ipMap podIP (ms, found) = (ms @ added, found') \<and>
           metadataKeys \<subseteq> found' \<and>
           (\<forall>m\<in>set added. networkSourced client ipMap podIPs metadataKeys m)"
proof (cases "map_of ipMap podIP")
  case None
  then have "checkPodIP client ipMap podIP (ms, found) = (ms @ [], found)"
    by (simp add: checkPodIP_def)
  then show ?thesis using assms(1) by fastforce
next
  case (Some crs)
  then show ?thesis
    using fold_connectResource_added[OF assms(1) subset_refl Some assms(2), of client ms]
    by (simp add: checkPodIP_def)
qed

lemma fold_checkPodIP_added:
  assumes "metadataKeys \<subseteq> found" "set ips \<subseteq> set podIPs"
  shows "\<exists>added found'.
           fold (checkPodIP client ipMap) ips (ms, found) = (ms @ added, found') \<and>
           metadataKeys \<subseteq> found' \<and>
           (\<forall>m\<in>set added. networkSourced client ipMap podIPs metadataKeys m)"
  using assms
proof (induction ips arbitrary: ms found)
  case Nil
  then have "fold (checkPodIP client ipMap) [] (ms, found) = (ms @ [], found)" by simp
  then show ?case using Nil.prems(1) by fastforce
next
  case (Cons ip rest)
  then have "ip \<in> set podIPs" by simp
  with Cons.prems(1) obtain a1 f1 where
    s1: "checkPodIP client ipMap ip (ms, found) = (ms @ a1, f1)" "metadataKeys \<subseteq> f1"
      "\<forall>m\<in>set a1. networkSourced client ipMap podIPs metadataKeys m"
    using checkPodIP_added[of metadataKeys found ip podIPs client ipMap ms] by blast
  have "set rest \<subseteq> set podIPs" using Cons.prems(2) by simp
  with s1(2) obtain a2 f2 where
    s2: "fold (checkPodIP client ipMap) rest (ms @ a1, f1) = ((ms @ a1) @ a2, f2)"
      "metadataKeys \<subseteq> f2"
      "\<forall>m\<in>set a2. networkSourced client ipMap podIPs metadataKeys m"
    using Cons.IH[of f1 "ms @ a1"] by blast
  have "fold (checkPodIP client ipMap) (ip # rest) (ms, found) = (ms @ (a1 @ a2), f2)"
    using s1(1) s2(1) by simp
  moreover have "\<forall>m\<in>set (a1 @ a2). networkSourced client ipMap podIPs metadataKeys m"
    using s1(3) s2(3) by auto
  ultimately show ?case using s2(2) by blast
qed

text \<open>
  Claim C6. The result of \<open>FindCrossplaneResourcesForNamespaceWithNetworking\<close> holds the
  metadata matches and the matches the network phase added, and nothing else. Every added
  match has confidence exactly 0.9 and exactly one reason, which cites the pod address it
  was reached through; its resource was fetched for an identifier of the index under that
  address whose key is not a key of a metadata match.
\<close>

theorem network_matches_fixed_confidence:
  "\<exists>added.
     mset (fst (FindCrossplaneResourcesForNamespaceWithNetworking h clock1 clock2 ns podIPs)) =
       mset (fst (FindCrossplaneResourcesForNamespaceWithConfidence h clock1 ns)) + mset added \<and>
     (\<forall>m\<in>set added.
        networkSourced (dynamicClient h)
          (resourceIPMap (snd (FindCrossplaneResourcesForNamespaceWithNetworking h clock1 clock2 ns podIPs)))
          podIPs
          (matchKey ` set (fst (FindCrossplaneResourcesForNamespaceWithConfidence h clock1 ns)))
          m)"
proof (cases "podIPs = [] \<or> mockMode h")
  case True
  have "mset (fst (FindCrossplaneResourcesForNamespaceWithNetworking h clock1 clock2 ns podIPs)) =
       mset (fst (FindCrossplaneResourcesForNamespaceWithConfidence h clock1 ns)) + mset []"
    using True by (simp only: Networking_early) simp
  then show ?thesis by fastforce
next
  case False
  then have p: "podIPs \<noteq> []" "\<not> mockMode h" by simp_all
  let ?ms = "fst (FindCrossplaneResourcesForNamespaceWithConfidence h clock1 ns)"
  let ?idx = "resourceIPMap (refreshed
                 (snd (FindCrossplaneResourcesForNamespaceWithConfidence h clock1 ns)) clock2)"
  obtain added found' where
    a: "fold (checkPodIP (dynamicClient h) ?idx) podIPs (?ms, matchKey ` set ?ms) = (?ms @ added, found')"
      "\<forall>m\<in>set added. networkSourced (dynamicClient h) ?idx podIPs (matchKey ` set ?ms) m"
    using fold_checkPodIP_added[of "matchKey ` set ?ms" "matchKey ` set ?ms" podIPs podIPs
        "dynamicClient h" ?idx ?ms]
    by blast
  have "mset (fst (FindCrossplaneResourcesForNamespaceWithNetworking h clock1 clock2 ns podIPs)) =
        mset ?ms + mset added"
    unfolding Networking_phase[OF p] a(1) by (simp add: sortMatchesByConfidence_mset)
  moreover have "resourceIPMap (snd (FindCrossplaneResourcesForNamespaceWithNetworking h clock1 clock2 ns podIPs)) = ?idx"
    unfolding Networking_phase[OF p] by simp
  ultimately show ?thesis using a(2) by auto
qed


lemma web1_addresses: "extractIPAddresses web1 = [''10.0.3.4'']"
  by (simp add: extractIPAddresses_def web1_def forProviderOf_def mapField_def
      computeInstanceIPs_def nonEmptyStrings_def stringField_def listField_def
      networkInterfaceIPs_def)

lemma payLedger_addresses: "extractIPAddresses payLedger = []"
  by (simp add: extractIPAddresses_def payLedger_def plainResource_def forProviderOf_def
      mapField_def statusIPs_def)

lemma net_index:
  "resourceIPMap (BuildNetworkMap netHandler now) = [(''10.0.3.4'', [web1Identifier])]"
proof -
  have "fold (indexType netClient) GetCrossplaneResourceTypes [] =
        fold indexItem [payLedger, web1] []"
    by (simp add: GetCrossplaneResourceTypes_def indexType_def netClient_def instancesClient_def
        computeInstances_def resourceType_def)
  moreover have "fold indexItem [payLedger, web1] [] = [(''10.0.3.4'', [web1Identifier])]"
    by (simp add: indexItem_def web1_addresses payLedger_addresses appendIdentifier_def
        web1Identifier_def) (simp add: web1_def)
  ultimately show ?thesis
    by (simp add: BuildNetworkMap_def netHandler_def handlerOf_def)
qed


lemma web1_score: "evaluateResourceMatchForNamespace web1 ''pay'' = ([], 0)"
  by (simp add: evaluateResourceMatchForNamespace_def scorer_defs web1_def)

lemma net_Find:
  "FindCrossplaneResourcesForNamespaceWithConfidence netHandler (0, 0) ''pay'' =
     ([ledgerMatch], netHandler)"
proof -
  have k: "resourceKey (GetKind payLedger) (GetName payLedger) = ''Instance/ledger''"
    "resourceKey (GetKind web1) (GetName web1) = ''Instance/web-1''"
    by (simp_all add: resourceKey_def payLedger_def plainResource_def web1_def)
  have "metadataPass netClient ''pay'' = [ledgerMatch]"
    by (simp add: metadataPass_items netClient_def listedItems_instancesClient scanItem_def
        pay_scores web1_score k ledgerMatch_def)
  then show ?thesis
    by (simp add: FindCrossplaneResourcesForNamespaceWithConfidence_def netHandler_def
        handlerOf_def Minute_def sortMatchesByConfidence_def innerLoop_def)
qed

lemma net_Networking:
  "FindCrossplaneResourcesForNamespaceWithNetworking netHandler (0, 0) (0, 0) ''pay'' [''10.0.3.4''] =
     ([ledgerMatch, web1Match], BuildNetworkMap netHandler 0)"
proof -
  have m: "\<not> mockMode netHandler" "resourceIPMap netHandler = []"
    "dynamicClient netHandler = netClient"
    by (simp_all add: netHandler_def handlerOf_def)
  have r: "refreshed netHandler (0, 0) = BuildNetworkMap netHandler 0"
    by (simp add: refreshed_def m)
  have g: "clientGet netClient (identifierGVR web1Identifier) (Name web1Identifier) = Inr web1"
    by (simp add: netClient_def instancesClient_def identifierGVR_def web1Identifier_def
        computeInstances_def resourceType_def ToLower_def toLowerChar_def)
  have k: "matchKey ledgerMatch = ''Instance/ledger''"
    "resourceKey (Kind web1Identifier) (Name web1Identifier) = ''Instance/web-1''"
    by (simp_all add: matchKey_def ledgerMatch_def resourceKey_def payLedger_def plainResource_def
        web1Identifier_def)
  have c: "checkPodIP netClient [(''10.0.3.4'', [web1Identifier])] ''10.0.3.4''
             ([ledgerMatch], {''Instance/ledger''}) =
           ([ledgerMatch, web1Match], {''Instance/web-1'', ''Instance/ledger''})"
    by (simp add: checkPodIP_def connectResource_def k g web1Match_def)
  have s: "sortMatchesByConfidence [ledgerMatch, web1Match] = [ledgerMatch, web1Match]"
    by (simp add: sortMatchesByConfidence_def innerLoop_def compareSwap_def numeral_2_eq_2
        ledgerMatch_def web1Match_def)
  show ?thesis
    using Networking_phase[of "[''10.0.3.4'']" netHandler "(0, 0)" "(0, 0)" "''pay''"]
    by (simp add: m net_Find r net_index k c s)
qed

theorem no_duplicate_resource_keys_witness:
  "fetchFaithful (dynamicClient netHandler)
      (resourceIPMap (snd (FindCrossplaneResourcesForNamespaceWithNetworking
                             netHandler (0, 0) (0, 0) ''pay'' [''10.0.3.4'']))) \<and>
   map matchKey (fst (FindCrossplaneResourcesForNamespaceWithNetworking
                        netHandler (0, 0) (0, 0) ''pay'' [''10.0.3.4''])) =
     [''Instance/ledger'', ''Instance/web-1''] \<and>
   distinct (map matchKey (fst (FindCrossplaneResourcesForNamespaceWithNetworking
                                  netHandler (0, 0) (0, 0) ''pay'' [''10.0.3.4''])))"
proof -
  have g: "clientGet netClient (identifierGVR web1Identifier) (Name web1Identifier) = Inr web1"
    by (simp add: netClient_def instancesClient_def identifierGVR_def web1Identifier_def
        computeInstances_def resourceType_def ToLower_def toLowerChar_def)
  have i: "resourceIPMap (snd (FindCrossplaneResourcesForNamespaceWithNetworking
                             netHandler (0, 0) (0, 0) ''pay'' [''10.0.3.4''])) =
           [(''10.0.3.4'', [web1Identifier])]"
    by (simp add: net_Networking net_index)
  have d: "dynamicClient netHandler = netClient" by (simp add: netHandler_def handlerOf_def)
  have "GetKind web1 = Kind web1Identifier \<and> GetName web1 = Name web1Identifier"
    by (simp add: web1_def web1Identifier_def)
  then have a: "fetchFaithful (dynamicClient netHandler)
      (resourceIPMap (snd (FindCrossplaneResourcesForNamespaceWithNetworking
                             netHandler (0, 0) (0, 0) ''pay'' [''10.0.3.4''])))"
    unfolding i d by (simp add: fetchFaithful_def fetchesIdentified_def g)
  have b: "map matchKey (fst (FindCrossplaneResourcesForNamespaceWithNetworking
                        netHandler (0, 0) (0, 0) ''pay'' [''10.0.3.4''])) =
     [''Instance/ledger'', ''Instance/web-1'']"
    by (simp add: net_Networking matchKey_def resourceKey_def ledgerMatch_def web1Match_def
        payLedger_def plainResource_def web1_def)
  show ?thesis
    using a b
      no_duplicate_resource_keys[of netHandler "(0, 0)" "''pay''" "(0, 0)" "[''10.0.3.4'']"]
    by blast
qed

theorem network_matches_fixed_confidence_witness:
  "fst (FindCrossplaneResourcesForNamespaceWithConfidence netHandler (0, 0) ''pay'') = [ledgerMatch] \<and>
   fst (FindCrossplaneResourcesForNamespaceWithNetworking netHandler (0, 0) (0, 0) ''pay''
          [''10.0.3.4'']) = [ledgerMatch, web1Match] \<and>
   (\<exists>added. added \<noteq> [] \<and>
      mset (fst (FindCrossplaneResourcesForNamespaceWithNetworking netHandler (0, 0) (0, 0) ''pay''
                   [''10.0.3.4''])) =
        mset (fst (FindCrossplaneResourcesForNamespaceWithConfidence netHandler (0, 0) ''pay'')) +
        mset added \<and>
      (\<forall>m\<in>set added.
         networkSourced (dynamicClient netHandler)
           (resourceIPMap (snd (FindCrossplaneResourcesForNamespaceWithNetworking
                                  netHandler (0, 0) (0, 0) ''pay'' [''10.0.3.4''])))
           [''10.0.3.4'']
           (matchKey ` set (fst (FindCrossplaneResourcesForNamespaceWithConfidence
                                   netHandler (0, 0) ''pay'')))
           m))"
proof -
  obtain added where
    a: "mset (fst (FindCrossplaneResourcesForNamespaceWithNetworking netHandler (0, 0) (0, 0) ''pay''
                   [''10.0.3.4''])) =
        mset (fst (FindCrossplaneResourcesForNamespaceWithConfidence netHandler (0, 0) ''pay'')) +
        mset added"
      "\<forall>m\<in>set added.
         networkSourced (dynamicClient netHandler)
           (resourceIPMap (snd (FindCrossplaneResourcesForNamespaceWithNetworking
                                  netHandler (0, 0) (0, 0) ''pay'' [''10.0.3.4''])))
           [''10.0.3.4'']
           (matchKey ` set (fst (FindCrossplaneResourcesForNamespaceWithConfidence
                                   netHandler (0, 0) ''pay'')))
           m"
    using network_matches_fixed_confidence[of netHandler "(0, 0)" "(0, 0)" "''pay''"
        "[''10.0.3.4'']"]
    by blast
  have "size (mset [ledgerMatch, web1Match]) = size (mset [ledgerMatch] + mset added)"
    using a(1) by (simp only: net_Networking net_Find fst_conv)
  then have "added \<noteq> []" by auto
  then show ?thesis using a by (auto simp only: net_Networking net_Find fst_conv)
qed

section \<open>The threshold and the order of the result\<close>

lemma scoredAt_append:
  "i < length items \<Longrightarrow> scoredAt ns (items @ [x]) i = scoredAt ns items i"
  by (simp add: scoredAt_def nth_append)

lemma keptAt_append:
  "i < length items \<Longrightarrow> keptAt ns (items @ [x]) i = keptAt ns items i"
  by (simp add: keptAt_def scoredAt_append nth_append)

lemma kept_positions_snoc:
  "map (\<lambda>i. matchOf ns ((items @ [x]) ! i))
       (filter (keptAt ns (items @ [x])) [0 ..< length (items @ [x])]) =
   map (\<lambda>i. matchOf ns (items ! i)) (filter (keptAt ns items) [0 ..< length items]) @
   (if keptAt ns (items @ [x]) (length items) then [matchOf ns x] else [])"
proof -
  have f: "filter (keptAt ns (items @ [x])) [0 ..< length items] =
           filter (keptAt ns items) [0 ..< length items]"
    by (rule filter_cong) (simp_all add: keptAt_append)
  have m: "map (\<lambda>i. matchOf ns ((items @ [x]) ! i)) (filter (keptAt ns items) [0 ..< length items]) =
           map (\<lambda>i. matchOf ns (items ! i)) (filter (keptAt ns items) [0 ..< length items])"
    by (rule map_cong) (simp_all add: nth_append)
  show ?thesis by (simp add: f m)
qed

lemma scanItem_cases:
  "scanItem ns item (ms, found) =
     (if itemKey item \<in> found then (ms, found)
      else if snd (evaluateResourceMatchForNamespace item ns) > 0.3
           then (ms @ [matchOf ns item], insert (itemKey item) found)
           else (ms, found))"
  by (cases "evaluateResourceMatchForNamespace item ns")
     (simp add: scanItem_def itemKey_def matchOf_def)

text \<open>The state of the first pass after a list of items, in closed form.\<close>

lemma fold_scanItem_closed:
  "fold (scanItem ns) items ([], {}) =
     (map (\<lambda>i. matchOf ns (items ! i)) (filter (keptAt ns items) [0 ..< length items]),
      itemKey ` {item \<in> set items. snd (evaluateResourceMatchForNamespace item ns) > 0.3})"
proof (induction items rule: rev_induct)
  case Nil
  then show ?case by simp
next
  case (snoc x items)
  let ?F = "itemKey ` {item \<in> set items. snd (evaluateResourceMatchForNamespace item ns) > 0.3}"
  let ?L = "map (\<lambda>i. matchOf ns (items ! i)) (filter (keptAt ns items) [0 ..< length items])"
  have sc: "scoredAt ns (items @ [x]) (length items) = (itemKey x \<notin> ?F)"
  proof
    assume a: "scoredAt ns (items @ [x]) (length items)"
    show "itemKey x \<notin> ?F"
    proof
      assume "itemKey x \<in> ?F"
      then obtain item where i: "item \<in> set items" "itemKey item = itemKey x"
        "snd (evaluateResourceMatchForNamespace item ns) > 0.3" by auto
      then obtain j where "j < length items" "items ! j = item" by (auto simp: in_set_conv_nth)
      then show False using a i by (auto simp: scoredAt_def nth_append)
    qed
  next
    assume a: "itemKey x \<notin> ?F"
    show "scoredAt ns (items @ [x]) (length items)"
      unfolding scoredAt_def
    proof (intro allI impI)
      fix j assume j: "j < length items"
        and k: "itemKey ((items @ [x]) ! j) = itemKey ((items @ [x]) ! length items)"
      then have e: "itemKey (items ! j) = itemKey x" by (simp add: nth_append)
      have m: "items ! j \<in> set items" using j by simp
      have "\<not> snd (evaluateResourceMatchForNamespace (items ! j) ns) > 0.3"
      proof
        assume "snd (evaluateResourceMatchForNamespace (items ! j) ns) > 0.3"
        with m have "itemKey (items ! j) \<in> ?F" by blast
        with e a show False by simp
      qed
      then show "\<not> snd (evaluateResourceMatchForNamespace ((items @ [x]) ! j) ns) > 0.3"
        using j by (simp add: nth_append)
    qed
  qed
  have step: "fold (scanItem ns) (items @ [x]) ([], {}) = scanItem ns x (?L, ?F)"
    using snoc by simp
  have key: "resourceKey (GetKind x) (GetName x) = itemKey x" by (simp add: itemKey_def)
  show ?case
  proof (cases "itemKey x \<in> ?F")
    case True
    then have "\<not> keptAt ns (items @ [x]) (length items)" using sc by (simp add: keptAt_def)
    moreover have "scanItem ns x (?L, ?F) = (?L, ?F)" using True by (simp add: scanItem_cases)
    moreover have "itemKey ` {item \<in> set (items @ [x]).
                      snd (evaluateResourceMatchForNamespace item ns) > 0.3} = ?F"
      using True by auto
    ultimately show ?thesis unfolding step kept_positions_snoc by simp
  next
    case False
    show ?thesis
    proof (cases "snd (evaluateResourceMatchForNamespace x ns) > 0.3")
      case True
      then have "keptAt ns (items @ [x]) (length items)" using sc False by (simp add: keptAt_def)
      moreover have "scanItem ns x (?L, ?F) = (?L @ [matchOf ns x], insert (itemKey x) ?F)"
        using True False by (simp add: scanItem_cases)
      moreover have "itemKey ` {item \<in> set (items @ [x]).
                      snd (evaluateResourceMatchForNamespace item ns) > 0.3} = insert (itemKey x) ?F"
        using True by auto
      ultimately show ?thesis unfolding step kept_positions_snoc by simp
    next
      case notkept: False
      then have "\<not> keptAt ns (items @ [x]) (length items)" by (simp add: keptAt_def)
      moreover have "scanItem ns x (?L, ?F) = (?L, ?F)"
        using notkept False by (simp add: scanItem_cases)
      moreover have "itemKey ` {item \<in> set (items @ [x]).
                      snd (evaluateResourceMatchForNamespace item ns) > 0.3} = ?F"
        using notkept by auto
      ultimately show ?thesis unfolding step kept_positions_snoc by simp
    qed
  qed
qed

lemma metadataPass_closed:
  "metadataPass client ns =
     map (\<lambda>i. matchOf ns (listedItems client ! i))
         (filter (keptAt ns (listedItems client)) [0 ..< length (listedItems client)])"
  by (simp add: metadataPass_items fold_scanItem_closed)


lemma Find_scanned:
  "fst (FindCrossplaneResourcesForNamespaceWithConfidence h clock ns) =
     sortMatchesByConfidence
       (map (\<lambda>i. matchOf ns (scanned h ! i))
            (filter (keptAt ns (scanned h)) [0 ..< length (scanned h)]))"
proof (cases "mockMode h")
  case True
  then show ?thesis
    by (simp add: FindCrossplaneResourcesForNamespaceWithConfidence_def scanned_def
        sortMatchesByConfidence_def)
next
  case False
  then show ?thesis by (simp add: Find_matches metadataPass_closed scanned_def)
qed

text \<open>
  Claim C2, as the code has it. The result of
  \<open>FindCrossplaneResourcesForNamespaceWithConfidence\<close> is sorted so that the confidence
  never increases along the list, and it holds exactly the matches of the kept items: a
  scored resource is in the result if and only if its confidence is above 0.3. The order
  among matches of equal confidence is not fixed by this.
\<close>

theorem resolveByName_threshold_and_descending_order:
  "sorted_wrt (\<lambda>a b. ConfidenceScore a \<ge> ConfidenceScore b)
     (fst (FindCrossplaneResourcesForNamespaceWithConfidence h clock ns)) \<and>
   mset (fst (FindCrossplaneResourcesForNamespaceWithConfidence h clock ns)) =
     mset (map (\<lambda>i. matchOf ns (scanned h ! i))
               (filter (keptAt ns (scanned h)) [0 ..< length (scanned h)])) \<and>
   (\<forall>i<length (scanned h).
      scoredAt ns (scanned h) i \<longrightarrow>
        (matchOf ns (scanned h ! i)
           \<in> set (fst (FindCrossplaneResourcesForNamespaceWithConfidence h clock ns))) =
        (snd (evaluateResourceMatchForNamespace (scanned h ! i) ns) > 0.3))"
proof -
  let ?items = "scanned h"
  let ?kept = "map (\<lambda>i. matchOf ns (?items ! i)) (filter (keptAt ns ?items) [0 ..< length ?items])"
  let ?res = "fst (FindCrossplaneResourcesForNamespaceWithConfidence h clock ns)"
  have res: "?res = sortMatchesByConfidence ?kept" by (rule Find_scanned)
  have 1: "sorted_wrt (\<lambda>a b. ConfidenceScore a \<ge> ConfidenceScore b) ?res"
    unfolding res by (rule sortMatchesByConfidence_descending)
  have 2: "mset ?res = mset ?kept" unfolding res by (rule sortMatchesByConfidence_mset)
  then have s: "set ?res = set ?kept" by (rule mset_eq_setD)
  have 3: "\<forall>i<length ?items. scoredAt ns ?items i \<longrightarrow>
             (matchOf ns (?items ! i) \<in> set ?res) =
             (snd (evaluateResourceMatchForNamespace (?items ! i) ns) > 0.3)"
  proof (intro allI impI)
    fix i assume i: "i < length ?items" and sc: "scoredAt ns ?items i"
    show "(matchOf ns (?items ! i) \<in> set ?res) =
          (snd (evaluateResourceMatchForNamespace (?items ! i) ns) > 0.3)"
    proof
      assume "matchOf ns (?items ! i) \<in> set ?res"
      then obtain j where j: "keptAt ns ?items j" "matchOf ns (?items ! j) = matchOf ns (?items ! i)"
        unfolding s by auto
      from j(2) have "ConfidenceScore (matchOf ns (?items ! j)) =
                      ConfidenceScore (matchOf ns (?items ! i))" by simp
      then have "snd (evaluateResourceMatchForNamespace (?items ! j) ns) =
                 snd (evaluateResourceMatchForNamespace (?items ! i) ns)"
        by (simp add: matchOf_def)
      then show "snd (evaluateResourceMatchForNamespace (?items ! i) ns) > 0.3"
        using j(1) by (simp add: keptAt_def)
    next
      assume "snd (evaluateResourceMatchForNamespace (?items ! i) ns) > 0.3"
      then have "keptAt ns ?items i" using sc by (simp add: keptAt_def)
      then have "i \<in> set (filter (keptAt ns ?items) [0 ..< length ?items])" using i by simp
      then show "matchOf ns (?items ! i) \<in> set ?res" unfolding s by (metis image_eqI set_map)
    qed
  qed
  show ?thesis using 1 2 3 by blast
qed

theorem resolveByName_threshold_and_descending_order_witness:
  "scanned (handlerOf repeatedClient []) = [payApi, payApi, web1, payLedger] \<and>
   scoredAt ''pay'' [payApi, payApi, web1, payLedger] 0 \<and>
   \<not> scoredAt ''pay'' [payApi, payApi, web1, payLedger] 1 \<and>
   scoredAt ''pay'' [payApi, payApi, web1, payLedger] 2 \<and>
   scoredAt ''pay'' [payApi, payApi, web1, payLedger] 3 \<and>
   snd (evaluateResourceMatchForNamespace payApi ''pay'') > 0.3 \<and>
   \<not> snd (evaluateResourceMatchForNamespace web1 ''pay'') > 0.3 \<and>
   matchOf ''pay'' payApi \<in> set (fst (FindCrossplaneResourcesForNamespaceWithConfidence
                                        (handlerOf repeatedClient []) (0, 0) ''pay'')) \<and>
   matchOf ''pay'' web1 \<notin> set (fst (FindCrossplaneResourcesForNamespaceWithConfidence
                                      (handlerOf repeatedClient []) (0, 0) ''pay'')) \<and>
   matchOf ''pay'' payLedger \<in> set (fst (FindCrossplaneResourcesForNamespaceWithConfidence
                                           (handlerOf repeatedClient []) (0, 0) ''pay'')) \<and>
   length (fst (FindCrossplaneResourcesForNamespaceWithConfidence
                  (handlerOf repeatedClient []) (0, 0) ''pay'')) = 2"
proof -
  let ?items = "[payApi, payApi, web1, payLedger]"
  let ?res = "fst (FindCrossplaneResourcesForNamespaceWithConfidence
                     (handlerOf repeatedClient []) (0, 0) ''pay'')"
  have sc: "scanned (handlerOf repeatedClient []) = ?items"
    by (simp add: scanned_def handlerOf_def repeatedClient_def listedItems_instancesClient)
  have k: "itemKey payApi = ''Instance/pay-api''" "itemKey web1 = ''Instance/web-1''"
    "itemKey payLedger = ''Instance/ledger''"
    by (simp_all add: itemKey_def resourceKey_def payApi_def payLedger_def plainResource_def
        web1_def)
  have s0: "scoredAt ''pay'' ?items 0" by (simp add: scoredAt_def)
  have s1: "\<not> scoredAt ''pay'' ?items 1" by (simp add: scoredAt_def pay_scores)
  have s2: "scoredAt ''pay'' ?items 2"
    by (simp add: scoredAt_def numeral_2_eq_2 All_less_Suc k)
  have s3: "scoredAt ''pay'' ?items 3"
    by (simp add: scoredAt_def numeral_3_eq_3 All_less_Suc k)
  have e: "snd (evaluateResourceMatchForNamespace payApi ''pay'') > 0.3"
    "\<not> snd (evaluateResourceMatchForNamespace web1 ''pay'') > 0.3"
    "snd (evaluateResourceMatchForNamespace payLedger ''pay'') > 0.3"
    by (simp_all add: pay_scores web1_score)
  note t = resolveByName_threshold_and_descending_order[of "handlerOf repeatedClient []"
      "(0, 0)" "''pay''", unfolded sc]
  from t have m: "\<forall>i<length ?items. scoredAt ''pay'' ?items i \<longrightarrow>
        (matchOf ''pay'' (?items ! i) \<in> set ?res) =
        (snd (evaluateResourceMatchForNamespace (?items ! i) ''pay'') > 0.3)"
    by blast
  have a: "matchOf ''pay'' payApi \<in> set ?res" using m[rule_format, of 0] s0 e by simp
  have w: "matchOf ''pay'' web1 \<notin> set ?res" using m[rule_format, of 2] s2 e by simp
  have l: "matchOf ''pay'' payLedger \<in> set ?res" using m[rule_format, of 3] s3 e by simp
  have kept: "filter (keptAt ''pay'' ?items) [0 ..< length ?items] = [0, 3]"
    using s0 s1 s2 s3 e by (simp add: keptAt_def upt_rec numeral_2_eq_2 numeral_3_eq_3)
  from t have "mset ?res = mset (map (\<lambda>i. matchOf ''pay'' (?items ! i))
                                  (filter (keptAt ''pay'' ?items) [0 ..< length ?items]))"
    by blast
  then have "size (mset ?res) = 2" unfolding kept by simp
  then have n: "length ?res = 2" by simp
  show ?thesis using sc s0 s1 s2 s3 e(1,2) a w l n by blast
qed

text \<open>
  The claim as it is written also keeps matches of equal confidence in the order of their
  discovery. The exchange sort does not: with \<open>pay-api\<close> and \<open>pay-worker\<close> (both 0.8)
  discovered before \<open>ledger\<close> (0.9), the first exchange moves \<open>pay-api\<close> behind
  \<open>pay-worker\<close>, so the result differs from the stable descending sort.
\<close>

theorem stable_tie_order_counterexample:
  "map (GetName \<circ> Resource) (metadataPass payClient ''pay'') =
     [''pay-api'', ''pay-worker'', ''ledger''] \<and>
   map ConfidenceScore (metadataPass payClient ''pay'') = [0.8, 0.8, 0.9] \<and>
   map (GetName \<circ> Resource)
     (fst (FindCrossplaneResourcesForNamespaceWithConfidence (handlerOf payClient []) (0, 0) ''pay'')) =
     [''ledger'', ''pay-worker'', ''pay-api''] \<and>
   fst (FindCrossplaneResourcesForNamespaceWithConfidence (handlerOf payClient []) (0, 0) ''pay'') \<noteq>
     sort_key (\<lambda>m. - ConfidenceScore m) (metadataPass payClient ''pay'')"
proof -
  have n: "GetName payApi = ''pay-api''" "GetName payWorker = ''pay-worker''"
    "GetName payLedger = ''ledger''"
    by (simp_all add: payApi_def payWorker_def payLedger_def plainResource_def)
  have a: "map (GetName \<circ> Resource) (metadataPass payClient ''pay'') =
     [''pay-api'', ''pay-worker'', ''ledger'']"
    by (simp add: pay_metadataPass n)
  have b: "map ConfidenceScore (metadataPass payClient ''pay'') = [0.8, 0.8, 0.9]"
    by (simp add: pay_metadataPass)
  have c: "map (GetName \<circ> Resource)
     (fst (FindCrossplaneResourcesForNamespaceWithConfidence (handlerOf payClient []) (0, 0) ''pay'')) =
     [''ledger'', ''pay-worker'', ''pay-api'']"
    by (simp add: pay_Find pay_sorted n)
  have "map (GetName \<circ> Resource)
          (sort_key (\<lambda>m. - ConfidenceScore m) (metadataPass payClient ''pay'')) =
        [''ledger'', ''pay-api'', ''pay-worker'']"
    by (simp add: pay_metadataPass n)
  with c have d: "fst (FindCrossplaneResourcesForNamespaceWithConfidence
                        (handlerOf payClient []) (0, 0) ''pay'') \<noteq>
     sort_key (\<lambda>m. - ConfidenceScore m) (metadataPass payClient ''pay'')"
    by auto
  show ?thesis using a b c d by blast
qed

section \<open>Properties of the label applier\<close>

lemma applyLabel_map:
  "map_of (fst (applyLabel (k, v) (cl, ch))) = (map_of cl)(k \<mapsto> v)"
  by (auto simp: applyLabel_def update_conv')

lemma applyLabel_changed:
  "snd (applyLabel (k, v) (cl, ch)) = (ch \<or> map_of cl k \<noteq> Some v)"
  by (simp add: applyLabel_def)

lemma fold_applyLabel:
  assumes "distinct (map fst labels)"
  shows "map_of (fst (fold applyLabel labels (cl, ch))) = map_of cl ++ map_of labels \<and>
         snd (fold applyLabel labels (cl, ch)) = (ch \<or> \<not> labelsUpToDate cl labels)"
  using assms
proof (induction labels arbitrary: cl ch)
  case Nil
  then show ?case by (simp add: labelsUpToDate_def)
next
  case (Cons kv rest)
  obtain k v where kv: "kv = (k, v)" by (cases kv)
  obtain cl1 ch1 where s: "applyLabel (k, v) (cl, ch) = (cl1, ch1)"
    by (cases "applyLabel (k, v) (cl, ch)")
  have m1: "map_of cl1 = (map_of cl)(k \<mapsto> v)" using applyLabel_map[of k v cl ch] s by simp
  have c1: "ch1 = (ch \<or> map_of cl k \<noteq> Some v)" using applyLabel_changed[of k v cl ch] s by simp
  have d: "distinct (map fst rest)" and nk: "k \<notin> fst ` set rest"
    using Cons.prems kv by simp_all
  have ih: "map_of (fst (fold applyLabel rest (cl1, ch1))) = map_of cl1 ++ map_of rest"
    "snd (fold applyLabel rest (cl1, ch1)) = (ch1 \<or> \<not> labelsUpToDate cl1 rest)"
    using Cons.IH[OF d, of cl1 ch1] by simp_all
  have none: "map_of rest k = None" using nk by (simp add: map_of_eq_None_iff)
  have a: "map_of cl1 ++ map_of rest = map_of cl ++ map_of ((k, v) # rest)"
  proof
    fix x
    show "(map_of cl1 ++ map_of rest) x = (map_of cl ++ map_of ((k, v) # rest)) x"
      using none by (cases "x = k") (auto simp: m1 map_add_def split: option.splits)
  qed
  have "\<And>kv'. kv' \<in> set rest \<Longrightarrow> map_of cl1 (fst kv') = map_of cl (fst kv')"
    using nk m1 by auto
  then have b: "labelsUpToDate cl1 rest = labelsUpToDate cl rest"
    by (simp add: labelsUpToDate_def list_all_iff)
  have step: "fold applyLabel ((k, v) # rest) (cl, ch) = fold applyLabel rest (cl1, ch1)"
    by (simp add: s)
  have up: "labelsUpToDate cl ((k, v) # rest) = (map_of cl k = Some v \<and> labelsUpToDate cl rest)"
    by (simp add: labelsUpToDate_def)
  have 1: "map_of (fst (fold applyLabel ((k, v) # rest) (cl, ch))) =
           map_of cl ++ map_of ((k, v) # rest)"
    unfolding step ih(1) by (rule a)
  have 2: "snd (fold applyLabel ((k, v) # rest) (cl, ch)) =
           (ch \<or> \<not> labelsUpToDate cl ((k, v) # rest))"
    using ih(2) b c1 unfolding step up by blast
  show ?case unfolding kv using 1 2 by (rule conjI)
qed

lemma Apply_mock: "mockMode h \<Longrightarrow> ApplyLabelsToResource h resource labels = (None, [])"
  by (simp add: ApplyLabelsToResource_def)

lemma Apply_get_failed:
  "\<not> mockMode h \<Longrightarrow>
   clientGet (dynamicClient h) (resourceGVR resource) (GetName resource) = Inl err \<Longrightarrow>
   ApplyLabelsToResource h resource labels = (Some (FailedToGet err), [])"
  by (simp add: ApplyLabelsToResource_def Let_def)

lemma Apply_fetched:
  assumes "distinct (map fst labels)" "\<not> mockMode h"
    and "clientGet (dynamicClient h) (resourceGVR resource) (GetName resource) = Inr current"
  shows "(labelsUpToDate (GetLabels current) labels \<longrightarrow>
            ApplyLabelsToResource h resource labels = (None, [])) \<and>
         (\<not> labelsUpToDate (GetLabels current) labels \<longrightarrow>
            (\<exists>merged.
               snd (ApplyLabelsToResource h resource labels) =
                 [(resourceGVR resource, current\<lparr>GetLabels := merged\<rparr>)] \<and>
               (\<forall>k v. map_of labels k = Some v \<longrightarrow> map_of merged k = Some v) \<and>
              (\<forall>k. map_of labels k = None \<longrightarrow>
                    map_of merged k = map_of (GetLabels current) k)))"
proof -
  obtain merged changed where
    f: "fold applyLabel labels (GetLabels current, False) = (merged, changed)"
    by (cases "fold applyLabel labels (GetLabels current, False)")
  have m: "map_of merged = map_of (GetLabels current) ++ map_of labels"
    and c: "changed = (\<not> labelsUpToDate (GetLabels current) labels)"
    using fold_applyLabel[OF assms(1), of "GetLabels current" False] f by simp_all
  have k: "(\<forall>k v. map_of labels k = Some v \<longrightarrow> map_of merged k = Some v) \<and>
              (\<forall>k. map_of labels k = None \<longrightarrow>
                    map_of merged k = map_of (GetLabels current) k)"
    unfolding m by (simp add: map_add_def)
  show ?thesis
  proof (cases "labelsUpToDate (GetLabels current) labels")
    case True
    then show ?thesis
      using assms(2,3) f c by (simp add: ApplyLabelsToResource_def Let_def)
  next
    case False
    then have "snd (ApplyLabelsToResource h resource labels) =
                 [(resourceGVR resource, current\<lparr>GetLabels := merged\<rparr>)]"
      using assms(2,3) f c
      by (simp add: ApplyLabelsToResource_def Let_def split: sum.splits)
    then show ?thesis using False k by blast
  qed
qed

text \<open>
  Claim C8. Every \<open>Update\<close> that \<open>ApplyLabelsToResource\<close> sends carries the object it has
  just read from the store, with labels merged key by key: a key of the desired labels has
  the desired value, and every other key has the value it had in the store. At most one
  \<open>Update\<close> is sent, and none is sent when no key would change its value, in particular
  when the desired labels are the current ones; outside mock mode one is sent when some key
  would change. The desired labels are a Go map, so each key occurs once.
\<close>

theorem apply_merges_and_skips_noop_writes:
  assumes "distinct (map fst labels)"
  shows "(\<forall>w\<in>set (snd (ApplyLabelsToResource h resource labels)).
            \<exists>current merged.
              clientGet (dynamicClient h) (resourceGVR resource) (GetName resource) = Inr current \<and>
              w = (resourceGVR resource, current\<lparr>GetLabels := merged\<rparr>) \<and>
              (\<forall>k v. map_of labels k = Some v \<longrightarrow> map_of merged k = Some v) \<and>
              (\<forall>k. map_of labels k = None \<longrightarrow>
                    map_of merged k = map_of (GetLabels current) k)) \<and>
         length (snd (ApplyLabelsToResource h resource labels)) \<le> 1 \<and>
         (\<forall>current.
            clientGet (dynamicClient h) (resourceGVR resource) (GetName resource) = Inr current \<longrightarrow>
            (snd (ApplyLabelsToResource h resource labels) = []) =
            (mockMode h \<or> labelsUpToDate (GetLabels current) labels))"
proof (cases "mockMode h")
  case True
  then show ?thesis by (simp add: Apply_mock)
next
  case False
  show ?thesis
  proof (cases "clientGet (dynamicClient h) (resourceGVR resource) (GetName resource)")
    case (Inl err)
    then show ?thesis using False by (simp add: Apply_get_failed)
  next
    case (Inr current)
    note f = Apply_fetched[OF assms False Inr]
    show ?thesis
    proof (cases "labelsUpToDate (GetLabels current) labels")
      case True
      then show ?thesis using f Inr False by simp
    next
      case up: False
      then obtain merged where
        m: "snd (ApplyLabelsToResource h resource labels) =
              [(resourceGVR resource, current\<lparr>GetLabels := merged\<rparr>)]"
           "(\<forall>k v. map_of labels k = Some v \<longrightarrow> map_of merged k = Some v) \<and>
              (\<forall>k. map_of labels k = None \<longrightarrow>
                    map_of merged k = map_of (GetLabels current) k)"
        using f by blast
      show ?thesis using m Inr False up by auto
    qed
  qed
qed


theorem apply_merges_and_skips_noop_writes_witness:
  "distinct (map fst [(''env'', ''prod''), (''owner'', ''pay'')]) \<and>
   clientGet (dynamicClient applyHandler) (resourceGVR web1) (GetName web1) = Inr taggedWeb \<and>
   \<not> mockMode applyHandler \<and>
   \<not> labelsUpToDate (GetLabels taggedWeb) [(''env'', ''prod''), (''owner'', ''pay'')] \<and>
   snd (ApplyLabelsToResource applyHandler web1 [(''env'', ''prod''), (''owner'', ''pay'')]) =
     [(resourceGVR web1,
       taggedWeb\<lparr>GetLabels := [(''team'', ''core''), (''env'', ''prod''), (''owner'', ''pay'')]\<rparr>)] \<and>
   labelsUpToDate (GetLabels taggedWeb) (GetLabels taggedWeb) \<and>
   snd (ApplyLabelsToResource applyHandler web1 (GetLabels taggedWeb)) = []"
proof -
  have a: "\<not> mockMode applyHandler" by (simp add: applyHandler_def handlerOf_def)
  have g: "resourceGVR web1 = computeInstances"
    by (simp add: resourceGVR_def web1_def computeInstances_def resourceType_def ToLower_def
        toLowerChar_def)
  have b: "clientGet (dynamicClient applyHandler) (resourceGVR web1) (GetName web1) = Inr taggedWeb"
    unfolding g by (simp add: applyHandler_def handlerOf_def instancesClient_def web1_def)
  have l: "GetLabels taggedWeb = [(''team'', ''core''), (''env'', ''dev'')]"
    by (simp add: taggedWeb_def)
  have d1: "distinct (map fst (GetLabels taggedWeb))" by (simp add: l)
  have d2: "distinct (map fst [(''env'', ''prod''), (''owner'', ''pay'')])" by simp
  have u1: "labelsUpToDate (GetLabels taggedWeb) (GetLabels taggedWeb)"
    by (simp add: l labelsUpToDate_def)
  have u2: "\<not> labelsUpToDate (GetLabels taggedWeb) [(''env'', ''prod''), (''owner'', ''pay'')]"
    by (simp add: l labelsUpToDate_def)
  have w: "snd (ApplyLabelsToResource applyHandler web1 [(''env'', ''prod''), (''owner'', ''pay'')]) =
     [(resourceGVR web1,
       taggedWeb\<lparr>GetLabels := [(''team'', ''core''), (''env'', ''prod''), (''owner'', ''pay'')]\<rparr>)]"
    using a b by (simp add: ApplyLabelsToResource_def Let_def applyLabel_def l split: sum.splits)
  have n: "snd (ApplyLabelsToResource applyHandler web1 (GetLabels taggedWeb)) = []"
    using apply_merges_and_skips_noop_writes[OF d1, of applyHandler web1] a b u1 by blast
  have "length (snd (ApplyLabelsToResource applyHandler web1
                       [(''env'', ''prod''), (''owner'', ''pay'')])) \<le> 1"
    using apply_merges_and_skips_noop_writes[OF d2, of applyHandler web1] by blast
  then show ?thesis using d2 a b u1 u2 w n by blast
qed

end
